theory Spec2Isabelle
  imports Complex_Main "HOL-Library.Word"
begin

section \<open>Result codes, metrics and the allocator\<close>

text \<open>
  The embedding follows the C sources of sysmon: \<^verbatim>\<open>sysmon.h\<close>, \<^verbatim>\<open>sysmon_internal.h\<close>,
  \<^verbatim>\<open>snapshot.c\<close>, \<^verbatim>\<open>ini.c\<close>, \<^verbatim>\<open>config.c\<close>, \<^verbatim>\<open>sysmon.c\<close> and the modules.

  Conventions of the model.
  \<^item> \<^verbatim>\<open>uint64_t\<close> and \<^verbatim>\<open>uint32_t\<close> are \<open>64 word\<close> and \<open>32 word\<close>: subtraction wraps.
  \<^item> \<^verbatim>\<open>double\<close> is \<open>real\<close>.  In the cpu module, whose usage percentage is a quotient
    of two converted counters, every conversion and operation is rounded to binary64
    (see the section on binary64 arithmetic).  In the other modules the expressions on
    doubles are taken as exact.
  \<^item> A pointer that may be \<^verbatim>\<open>NULL\<close> is an \<open>option\<close>.  Out-parameters are results.
  \<^item> \<^verbatim>\<open>malloc\<close>, \<^verbatim>\<open>calloc\<close>, \<^verbatim>\<open>realloc\<close> can fail.  The outcomes of the coming allocation
    requests are a list of booleans (\<open>heap\<close>); each request takes the head, and once the
    list is used up every request succeeds.  \<^verbatim>\<open>free\<close> has no effect on the model.
  \<^item> An array with its element count is a list; \<^verbatim>\<open>size_t\<close> arithmetic is on \<open>nat\<close>.
\<close>

datatype sysmon_result =
    SYSMON_OK
  | SYSMON_ERR_INVALID_ARGUMENT
  | SYSMON_ERR_IO
  | SYSMON_ERR_PARSE
  | SYSMON_ERR_NOT_SUPPORTED
  | SYSMON_ERR_OUT_OF_MEMORY
  | SYSMON_ERR_INTERNAL

datatype sysmon_metric_type =
    SYSMON_METRIC_DOUBLE
  | SYSMON_METRIC_INT64
  | SYSMON_METRIC_UINT64
  | SYSMON_METRIC_STRING

text \<open>The union \<^verbatim>\<open>value\<close> of \<^verbatim>\<open>sysmon_metric_t\<close>; \<open>Str None\<close> is a \<^verbatim>\<open>NULL\<close> string.\<close>

datatype metric_value =
    F64 real
  | I64 "64 word"
  | U64 "64 word"
  | Str "string option"

record sysmon_metric =
  m_name :: "string option"
  m_unit :: "string option"
  m_type :: sysmon_metric_type
  m_value :: metric_value

type_synonym heap = "bool list"

definition alloc :: "heap \<Rightarrow> bool \<times> heap" where
  "alloc h = (case h of [] \<Rightarrow> (True, []) | ok # h' \<Rightarrow> (ok, h'))"

text \<open>\<^verbatim>\<open>sysmon_strdup\<close>: \<^verbatim>\<open>NULL\<close> for \<^verbatim>\<open>NULL\<close> (no allocation), else a copy or \<^verbatim>\<open>NULL\<close>.\<close>

definition sysmon_strdup :: "string option \<Rightarrow> heap \<Rightarrow> string option \<times> heap" where
  "sysmon_strdup s h =
     (case s of
        None \<Rightarrow> (None, h)
      | Some str \<Rightarrow> (case alloc h of (ok, h') \<Rightarrow> (if ok then Some str else None, h')))"

text \<open>
  \<^verbatim>\<open>sysmon_set_error(target, message)\<close> for a non-\<^verbatim>\<open>NULL\<close> \<open>target\<close>, which is what every
  caller passes: the new content of \<^verbatim>\<open>*target\<close>.
\<close>

definition sysmon_set_error :: "string option \<Rightarrow> heap \<Rightarrow> string option \<times> heap" where
  "sysmon_set_error message h = sysmon_strdup message h"

section \<open>Snapshot builder and snapshot (snapshot.c)\<close>

record sysmon_snapshot =
  s_metrics :: "sysmon_metric list"

record sysmon_snapshot_builder =
  b_metrics :: "sysmon_metric list"
  b_capacity :: nat

definition s_count :: "sysmon_snapshot \<Rightarrow> nat" where
  "s_count s = length (s_metrics s)"

definition b_count :: "sysmon_snapshot_builder \<Rightarrow> nat" where
  "b_count b = length (b_metrics b)"

definition ensure_capacity ::
  "sysmon_snapshot_builder \<Rightarrow> heap \<Rightarrow> sysmon_result \<times> sysmon_snapshot_builder \<times> string option \<times> heap" where
  "ensure_capacity b h =
     (if b_count b < b_capacity b then (SYSMON_OK, b, None, h)
      else
        let new_cap = (if b_capacity b = 0 then 32 else b_capacity b * 2) in
        case alloc h of (ok, h1) \<Rightarrow>
          if \<not> ok then
            (case sysmon_set_error (Some ''out of memory while growing snapshot metrics'') h1 of
               (err, h2) \<Rightarrow> (SYSMON_ERR_OUT_OF_MEMORY, b, err, h2))
          else (SYSMON_OK, b\<lparr>b_capacity := new_cap\<rparr>, None, h1))"

definition sysmon_snapshot_builder_create ::
  "heap \<Rightarrow> sysmon_result \<times> sysmon_snapshot_builder option \<times> heap" where
  "sysmon_snapshot_builder_create h =
     (case alloc h of (ok, h') \<Rightarrow>
        if \<not> ok then (SYSMON_ERR_OUT_OF_MEMORY, None, h')
        else (SYSMON_OK, Some \<lparr>b_metrics = [], b_capacity = 0\<rparr>, h'))"

text \<open>
  \<^verbatim>\<open>sysmon_snapshot_builder_finalize\<close>: the result code, the builder after the call and
  the snapshot written to \<^verbatim>\<open>*out_snapshot\<close>.
\<close>

definition sysmon_snapshot_builder_finalize ::
  "sysmon_snapshot_builder option \<Rightarrow> heap \<Rightarrow>
     sysmon_result \<times> sysmon_snapshot_builder option \<times> sysmon_snapshot option \<times> heap" where
  "sysmon_snapshot_builder_finalize builder h =
     (case builder of
        None \<Rightarrow> (SYSMON_ERR_INVALID_ARGUMENT, None, None, h)
      | Some b \<Rightarrow>
          (case alloc h of (ok, h') \<Rightarrow>
             if \<not> ok then (SYSMON_ERR_OUT_OF_MEMORY, Some b, None, h')
             else (SYSMON_OK, Some \<lparr>b_metrics = [], b_capacity = 0\<rparr>,
                   Some \<lparr>s_metrics = b_metrics b\<rparr>, h')))"

text \<open>The zeroed union after \<^verbatim>\<open>memset\<close>, read at the member the type tag selects.\<close>

definition zero_value :: "sysmon_metric_type \<Rightarrow> metric_value" where
  "zero_value t =
     (case t of
        SYSMON_METRIC_DOUBLE \<Rightarrow> F64 0
      | SYSMON_METRIC_INT64 \<Rightarrow> I64 0
      | SYSMON_METRIC_UINT64 \<Rightarrow> U64 0
      | SYSMON_METRIC_STRING \<Rightarrow> Str None)"

definition add_common ::
  "sysmon_snapshot_builder option \<Rightarrow> string option \<Rightarrow> string option \<Rightarrow> sysmon_metric_type \<Rightarrow> heap \<Rightarrow>
     sysmon_result \<times> sysmon_snapshot_builder option \<times> string option \<times> heap" where
  "add_common builder name unit type h =
     (case builder of
        None \<Rightarrow> (SYSMON_ERR_INVALID_ARGUMENT, None, None, h)
      | Some b \<Rightarrow>
          if name = None then (SYSMON_ERR_INVALID_ARGUMENT, Some b, None, h)
          else
            (case ensure_capacity b h of (rc, b1, err, h1) \<Rightarrow>
               if rc \<noteq> SYSMON_OK then (rc, Some b1, err, h1)
               else
                 (case sysmon_strdup name h1 of (name_copy, h2) \<Rightarrow>
                  case sysmon_strdup unit h2 of (unit_copy, h3) \<Rightarrow>
                    if name_copy = None \<or> (unit \<noteq> None \<and> unit_copy = None) then
                      (case sysmon_set_error (Some ''out of memory while duplicating metric strings'') h3 of
                         (err', h4) \<Rightarrow> (SYSMON_ERR_OUT_OF_MEMORY, Some b1, err', h4))
                    else
                      (SYSMON_OK,
                       Some (b1\<lparr>b_metrics := b_metrics b1 @
                          [\<lparr>m_name = name_copy, m_unit = unit_copy, m_type = type,
                            m_value = zero_value type\<rparr>]\<rparr>),
                       err, h3))))"

text \<open>\<^verbatim>\<open>builder->metrics[builder->count - 1].value = v\<close>, after a successful \<open>add_common\<close>.\<close>

definition set_last_value :: "sysmon_snapshot_builder \<Rightarrow> metric_value \<Rightarrow> sysmon_snapshot_builder" where
  "set_last_value b v =
     b\<lparr>b_metrics := (b_metrics b)[b_count b - 1 := (b_metrics b ! (b_count b - 1))\<lparr>m_value := v\<rparr>]\<rparr>"

definition sysmon_snapshot_builder_add_double ::
  "sysmon_snapshot_builder option \<Rightarrow> string option \<Rightarrow> string option \<Rightarrow> real \<Rightarrow> heap \<Rightarrow>
     sysmon_result \<times> sysmon_snapshot_builder option \<times> heap" where
  "sysmon_snapshot_builder_add_double builder name unit v h =
     (case add_common builder name unit SYSMON_METRIC_DOUBLE h of (rc, b', err, h') \<Rightarrow>
        if rc \<noteq> SYSMON_OK then (rc, b', h')
        else (SYSMON_OK, map_option (\<lambda>b. set_last_value b (F64 v)) b', h'))"

definition sysmon_snapshot_builder_add_i64 ::
  "sysmon_snapshot_builder option \<Rightarrow> string option \<Rightarrow> string option \<Rightarrow> 64 word \<Rightarrow> heap \<Rightarrow>
     sysmon_result \<times> sysmon_snapshot_builder option \<times> heap" where
  "sysmon_snapshot_builder_add_i64 builder name unit v h =
     (case add_common builder name unit SYSMON_METRIC_INT64 h of (rc, b', err, h') \<Rightarrow>
        if rc \<noteq> SYSMON_OK then (rc, b', h')
        else (SYSMON_OK, map_option (\<lambda>b. set_last_value b (I64 v)) b', h'))"

definition sysmon_snapshot_builder_add_u64 ::
  "sysmon_snapshot_builder option \<Rightarrow> string option \<Rightarrow> string option \<Rightarrow> 64 word \<Rightarrow> heap \<Rightarrow>
     sysmon_result \<times> sysmon_snapshot_builder option \<times> heap" where
  "sysmon_snapshot_builder_add_u64 builder name unit v h =
     (case add_common builder name unit SYSMON_METRIC_UINT64 h of (rc, b', err, h') \<Rightarrow>
        if rc \<noteq> SYSMON_OK then (rc, b', h')
        else (SYSMON_OK, map_option (\<lambda>b. set_last_value b (U64 v)) b', h'))"

text \<open>
  \<^verbatim>\<open>sysmon_snapshot_builder_add_string\<close>: when the copy of the value cannot be allocated the
  record has already been appended, with a \<^verbatim>\<open>NULL\<close> string.
\<close>

definition sysmon_snapshot_builder_add_string ::
  "sysmon_snapshot_builder option \<Rightarrow> string option \<Rightarrow> string option \<Rightarrow> string option \<Rightarrow> heap \<Rightarrow>
     sysmon_result \<times> sysmon_snapshot_builder option \<times> heap" where
  "sysmon_snapshot_builder_add_string builder name unit v h =
     (case add_common builder name unit SYSMON_METRIC_STRING h of (rc, b', err, h') \<Rightarrow>
        if rc \<noteq> SYSMON_OK then (rc, b', h')
        else
          (case sysmon_strdup (Some (case v of None \<Rightarrow> [] | Some s \<Rightarrow> s)) h' of (copy, h'') \<Rightarrow>
             (if copy = None then SYSMON_ERR_OUT_OF_MEMORY else SYSMON_OK,
              map_option (\<lambda>b. set_last_value b (Str copy)) b', h'')))"

definition sysmon_snapshot_metric_count :: "sysmon_snapshot option \<Rightarrow> nat" where
  "sysmon_snapshot_metric_count snapshot = (case snapshot of None \<Rightarrow> 0 | Some s \<Rightarrow> s_count s)"

definition sysmon_snapshot_metric_at :: "sysmon_snapshot option \<Rightarrow> nat \<Rightarrow> sysmon_metric option" where
  "sysmon_snapshot_metric_at snapshot index =
     (case snapshot of
        None \<Rightarrow> None
      | Some s \<Rightarrow> if index \<ge> s_count s then None else Some (s_metrics s ! index))"

text \<open>The loop of \<^verbatim>\<open>sysmon_snapshot_find\<close>, from the first element on.\<close>

fun find_loop :: "sysmon_metric list \<Rightarrow> string \<Rightarrow> sysmon_metric option" where
  "find_loop [] name = None"
| "find_loop (m # ms) name =
     (if m_name m \<noteq> None \<and> the (m_name m) = name then Some m else find_loop ms name)"

definition sysmon_snapshot_find :: "sysmon_snapshot option \<Rightarrow> string option \<Rightarrow> sysmon_metric option" where
  "sysmon_snapshot_find snapshot name =
     (case (snapshot, name) of
        (Some s, Some n) \<Rightarrow> find_loop (s_metrics s) n
      | _ \<Rightarrow> None)"

text \<open>
  A caller's sequence of \<^verbatim>\<open>add_*\<close> calls, stopped at the first that fails, and the
  record each call is meant to leave in the snapshot.  Every allocation succeeds on a
  heap that holds no failure.
\<close>

datatype metric_add =
    Add_double string "string option" real
  | Add_i64 string "string option" "64 word"
  | Add_u64 string "string option" "64 word"
  | Add_string string "string option" "string option"

fun apply_add ::
  "metric_add \<Rightarrow> sysmon_snapshot_builder option \<Rightarrow> heap \<Rightarrow>
     sysmon_result \<times> sysmon_snapshot_builder option \<times> heap" where
  "apply_add (Add_double n u v) b h = sysmon_snapshot_builder_add_double b (Some n) u v h"
| "apply_add (Add_i64 n u v) b h = sysmon_snapshot_builder_add_i64 b (Some n) u v h"
| "apply_add (Add_u64 n u v) b h = sysmon_snapshot_builder_add_u64 b (Some n) u v h"
| "apply_add (Add_string n u v) b h = sysmon_snapshot_builder_add_string b (Some n) u v h"

fun apply_adds ::
  "metric_add list \<Rightarrow> sysmon_snapshot_builder option \<Rightarrow> heap \<Rightarrow>
     sysmon_result \<times> sysmon_snapshot_builder option \<times> heap" where
  "apply_adds [] b h = (SYSMON_OK, b, h)"
| "apply_adds (a # as) b h =
     (case apply_add a b h of (rc, b', h') \<Rightarrow>
        if rc \<noteq> SYSMON_OK then (rc, b', h') else apply_adds as b' h')"

fun added_metric :: "metric_add \<Rightarrow> sysmon_metric" where
  "added_metric (Add_double n u v) =
     \<lparr>m_name = Some n, m_unit = u, m_type = SYSMON_METRIC_DOUBLE, m_value = F64 v\<rparr>"
| "added_metric (Add_i64 n u v) =
     \<lparr>m_name = Some n, m_unit = u, m_type = SYSMON_METRIC_INT64, m_value = I64 v\<rparr>"
| "added_metric (Add_u64 n u v) =
     \<lparr>m_name = Some n, m_unit = u, m_type = SYSMON_METRIC_UINT64, m_value = U64 v\<rparr>"
| "added_metric (Add_string n u v) =
     \<lparr>m_name = Some n, m_unit = u, m_type = SYSMON_METRIC_STRING,
      m_value = Str (Some (case v of None \<Rightarrow> [] | Some s \<Rightarrow> s))\<rparr>"

definition heap_ok :: "heap \<Rightarrow> bool" where
  "heap_ok h = list_all (\<lambda>ok. ok) h"

section \<open>Configuration (ini.c, config.c)\<close>

text \<open>
  The loaded configuration is the list of its entries in file order.  Reading the file
  (\<^verbatim>\<open>sysmon_ini_load_file\<close>) is input and output; its outcome is a parameter of
  \<open>sysmon_create\<close> below.
\<close>

record sysmon_ini_entry =
  e_section :: string
  e_key :: string
  e_value :: string

record sysmon_ini =
  entries :: "sysmon_ini_entry list"

fun ini_get_loop :: "sysmon_ini_entry list \<Rightarrow> string \<Rightarrow> string \<Rightarrow> string option" where
  "ini_get_loop [] section key = None"
| "ini_get_loop (e # es) section key =
     (if e_section e = section \<and> e_key e = key then Some (e_value e)
      else ini_get_loop es section key)"

definition sysmon_ini_get :: "sysmon_ini option \<Rightarrow> string option \<Rightarrow> string option \<Rightarrow> string option" where
  "sysmon_ini_get ini section key =
     (case (ini, section, key) of
        (Some i, Some s, Some k) \<Rightarrow> ini_get_loop (entries i) s k
      | _ \<Rightarrow> None)"

text \<open>The C library in the C locale: \<^verbatim>\<open>tolower\<close>, \<^verbatim>\<open>isspace\<close>, \<^verbatim>\<open>isdigit\<close>, \<^verbatim>\<open>strcasecmp\<close>.\<close>

definition c_tolower :: "char \<Rightarrow> char" where
  "c_tolower c =
     (if (65::nat) \<le> of_char c \<and> of_char c \<le> (90::nat) then char_of (of_char c + (32::nat)) else c)"

definition c_isspace :: "char \<Rightarrow> bool" where
  "c_isspace c = (of_char c = (32::nat) \<or> ((9::nat) \<le> of_char c \<and> of_char c \<le> (13::nat)))"

definition c_isdigit :: "char \<Rightarrow> bool" where
  "c_isdigit c = ((48::nat) \<le> of_char c \<and> of_char c \<le> (57::nat))"

definition strcasecmp_eq :: "string \<Rightarrow> string \<Rightarrow> bool" where
  "strcasecmp_eq a b = (map c_tolower a = map c_tolower b)"

definition parse_bool :: "string option \<Rightarrow> bool \<Rightarrow> bool" where
  "parse_bool s default_value =
     (case s of
        None \<Rightarrow> default_value
      | Some v \<Rightarrow>
          if v = ''1'' then True
          else if v = ''0'' then False
          else if strcasecmp_eq v ''true'' then True
          else if strcasecmp_eq v ''false'' then False
          else if strcasecmp_eq v ''yes'' then True
          else if strcasecmp_eq v ''no'' then False
          else if strcasecmp_eq v ''on'' then True
          else if strcasecmp_eq v ''off'' then False
          else default_value)"

definition sysmon_ini_get_bool :: "sysmon_ini option \<Rightarrow> string option \<Rightarrow> string option \<Rightarrow> bool \<Rightarrow> bool" where
  "sysmon_ini_get_bool ini section key default_value =
     parse_bool (sysmon_ini_get ini section key) default_value"

text \<open>
  \<^verbatim>\<open>strtoul(v, &end, 10)\<close> of the C library where \<^verbatim>\<open>unsigned long\<close> has 64 bits (Linux and
  macOS): white space, an optional sign, decimal digits.  The result is the value
  returned, the number of characters consumed (\<^verbatim>\<open>end - v\<close>, 0 when there is no digit) and
  whether \<^verbatim>\<open>errno\<close> is set (\<^verbatim>\<open>ERANGE\<close>).  A minus sign negates the value in \<^verbatim>\<open>unsigned long\<close>.
\<close>

fun digits_value :: "nat \<Rightarrow> string \<Rightarrow> nat" where
  "digits_value acc [] = acc"
| "digits_value acc (c # cs) = digits_value (acc * 10 + (of_char c - 48)) cs"

definition strtoul10 :: "string \<Rightarrow> nat \<times> nat \<times> bool" where
  "strtoul10 v =
     (let s1 = dropWhile c_isspace v;
          neg = (s1 \<noteq> [] \<and> hd s1 = CHR ''-'');
          s2 = (if s1 \<noteq> [] \<and> (hd s1 = CHR ''-'' \<or> hd s1 = CHR ''+'') then tl s1 else s1);
          ds = takeWhile c_isdigit s2;
          n = digits_value 0 ds;
          consumed = (length v - length s2) + length ds
      in if ds = [] then (0, 0, False)
         else if n > 2 ^ 64 - 1 then (2 ^ 64 - 1, consumed, True)
         else (if neg then (2 ^ 64 - n) mod 2 ^ 64 else n, consumed, False))"

text \<open>\<^verbatim>\<open>sysmon_ini_get_u32\<close>: the value returned and \<^verbatim>\<open>*out_ok\<close>.\<close>

definition sysmon_ini_get_u32 ::
  "sysmon_ini option \<Rightarrow> string option \<Rightarrow> string option \<Rightarrow> 32 word \<Rightarrow> 32 word \<times> bool" where
  "sysmon_ini_get_u32 ini section key default_value =
     (case sysmon_ini_get ini section key of
        None \<Rightarrow> (default_value, True)
      | Some v \<Rightarrow>
          if v = [] then (default_value, True)
          else
            (case strtoul10 v of (n, consumed, erange) \<Rightarrow>
               if erange \<or> consumed = 0 \<or> consumed < length v \<or> n > 0xffffffff
               then (default_value, False)
               else (of_nat n, True)))"

record sysmon_config =
  interval_ms :: "32 word"

text \<open>\<^verbatim>\<open>sysmon_config_load_from_ini\<close>, for a non-\<^verbatim>\<open>NULL\<close> \<open>out_config\<close>.\<close>

definition sysmon_config_load_from_ini ::
  "sysmon_ini option \<Rightarrow> heap \<Rightarrow> sysmon_result \<times> sysmon_config \<times> string option \<times> heap" where
  "sysmon_config_load_from_ini ini h =
     (if ini = None then (SYSMON_OK, \<lparr>interval_ms = 1000\<rparr>, None, h)
      else
        (case sysmon_ini_get_u32 ini (Some ''sysmon'') (Some ''interval_ms'') 1000 of
           (interval, ok) \<Rightarrow>
             if \<not> ok \<or> interval = 0 then
               (case sysmon_set_error
                    (Some ''invalid sysmon.interval_ms (must be an integer > 0)'') h of
                  (err, h') \<Rightarrow> (SYSMON_ERR_PARSE, \<lparr>interval_ms = 1000\<rparr>, err, h'))
             else (SYSMON_OK, \<lparr>interval_ms = interval\<rparr>, None, h)))"

section \<open>What the platform reports\<close>

text \<open>
  The functions that query the operating system (\<^verbatim>\<open>detect_core_count\<close>, \<^verbatim>\<open>read_cpu_ticks\<close>,
  \<^verbatim>\<open>read_total_mem\<close>, \<^verbatim>\<open>read_mem_used_free\<close>, \<^verbatim>\<open>detect_battery_path\<close>, \<^verbatim>\<open>read_u32_file\<close>,
  \<^verbatim>\<open>read_string_file\<close>, \<^verbatim>\<open>read_interface_bytes\<close>, \<^verbatim>\<open>read_storage_stats\<close>) are inputs: a record
  holds what each of them gives at the time of a call.  A failure is \<open>Inl err\<close>, with the
  message the function stored (\<open>None\<close> when it stored none); a success is \<open>Inr\<close> of its
  outputs.
\<close>

record os_reads =
  os_core_count :: "32 word"
  os_cpu_ticks :: "string option + (64 word \<times> 64 word)"
  os_total_mem :: "string option + 64 word"
  os_mem_used_free :: "64 word \<Rightarrow> string option + (64 word \<times> 64 word)"
  os_battery_path :: "string option + string"
  os_u32_file :: "string \<Rightarrow> 32 word option"
  os_string_file :: "string \<Rightarrow> string option"
  os_interface_bytes :: "string option \<Rightarrow> bool \<Rightarrow> string option + (64 word \<times> 64 word \<times> string)"
  os_storage_stats :: "string \<Rightarrow> string option + (64 word \<times> 64 word \<times> 64 word)"

text \<open>What a module's \<^verbatim>\<open>create\<close> and \<^verbatim>\<open>poll\<close> leave behind.\<close>

record 's create_out =
  c_rc :: sysmon_result
  c_state :: "'s option"
  c_error :: "string option"
  c_heap :: heap

record 's poll_out =
  p_rc :: sysmon_result
  p_state :: "'s option"
  p_builder :: "sysmon_snapshot_builder option"
  p_error :: "string option"
  p_heap :: heap

text \<open>
  The tail of every \<^verbatim>\<open>poll\<close>: the module's \<^verbatim>\<open>add_*\<close> calls in order, returning at the first
  that fails.  \<^verbatim>\<open>*out_error\<close> is not written.
\<close>

definition emit ::
  "'s \<Rightarrow> metric_add list \<Rightarrow> sysmon_snapshot_builder \<Rightarrow> heap \<Rightarrow> 's poll_out" where
  "emit st adds b h =
     (case apply_adds adds (Some b) h of (rc, b', h') \<Rightarrow>
        \<lparr>p_rc = rc, p_state = Some st, p_builder = b', p_error = None, p_heap = h'\<rparr>)"

text \<open>A failed read inside \<^verbatim>\<open>poll\<close>: \<^verbatim>\<open>sysmon_set_error(out_error, err ? err : fallback)\<close>.\<close>

definition read_failed ::
  "sysmon_result \<Rightarrow> 's \<Rightarrow> sysmon_snapshot_builder \<Rightarrow> string option \<Rightarrow> string \<Rightarrow> heap \<Rightarrow> 's poll_out" where
  "read_failed rc st b err fallback h =
     (case sysmon_set_error (Some (case err of None \<Rightarrow> fallback | Some e \<Rightarrow> e)) h of
        (e', h') \<Rightarrow>
          \<lparr>p_rc = rc, p_state = Some st, p_builder = Some b, p_error = e', p_heap = h'\<rparr>)"

section \<open>Binary64 arithmetic (the \<^verbatim>\<open>double\<close> expressions of cpu.c)\<close>

text \<open>
  A finite \<^verbatim>\<open>double\<close> is the real number it denotes.  A conversion from \<^verbatim>\<open>uint64_t\<close>, a
  product and a quotient give the exact result rounded to the nearest double, ties to
  the even significand (IEEE 754 binary64, every operation rounded to \<^verbatim>\<open>double\<close>, as on
  x86-64 and AArch64).

  \<open>scale\<close> brings a positive real into the interval from \<open>2^52\<close> up to \<open>2^53\<close> by doubling
  or halving it and counts the exponent; its first argument bounds the number of steps,
  and 2200 steps cover the exponents of every finite double.  \<open>round_half_even\<close> rounds
  the scaled value to an integer, the significand.  Overflow and subnormal results are
  not modelled; the values of cpu.c lie between \<open>1\<close> and \<open>100 * 2^64\<close>.
\<close>

definition round_half_even :: "real \<Rightarrow> int" where
  "round_half_even q =
     (let f = \<lfloor>q\<rfloor>
      in if q - of_int f < 1 / 2 then f
         else if q - of_int f > 1 / 2 then f + 1
         else if even f then f else f + 1)"

primrec scale :: "nat \<Rightarrow> real \<Rightarrow> int \<Rightarrow> real \<times> int" where
  "scale 0 x e = (x, e)"
| "scale (Suc n) x e =
     (if x < 2 ^ 52 then scale n (2 * x) (e - 1)
      else if 2 ^ 53 \<le> x then scale n (x / 2) (e + 1)
      else (x, e))"

definition round_double :: "real \<Rightarrow> real" where
  "round_double x =
     (if x = 0 then 0
      else (case scale 2200 \<bar>x\<bar> 0 of
              (q, e) \<Rightarrow>
                sgn x * of_int (round_half_even q) *
                  (if 0 \<le> e then 2 ^ nat e else 1 / 2 ^ nat (- e))))"

text \<open>\<^verbatim>\<open>(double)w\<close> for a \<^verbatim>\<open>uint64_t\<close>, \<^verbatim>\<open>a * b\<close> and \<^verbatim>\<open>a / b\<close> on doubles.\<close>

definition double_of_u64 :: "64 word \<Rightarrow> real" where
  "double_of_u64 w = round_double (real (unat w))"

definition double_mul :: "real \<Rightarrow> real \<Rightarrow> real" where
  "double_mul a b = round_double (a * b)"

definition double_div :: "real \<Rightarrow> real \<Rightarrow> real" where
  "double_div a b = round_double (a / b)"

section \<open>The cpu module (cpu.c)\<close>

record cpu_state =
  last_total :: "64 word"
  last_idle :: "64 word"
  last_usage_percent :: real
  core_count :: "32 word"
  has_prev :: bool

definition cpu_create :: "sysmon_ini option \<Rightarrow> string \<Rightarrow> os_reads \<Rightarrow> heap \<Rightarrow> cpu_state create_out" where
  "cpu_create ini section os h =
     (case alloc h of (ok, h') \<Rightarrow>
        if \<not> ok then
          \<lparr>c_rc = SYSMON_ERR_OUT_OF_MEMORY, c_state = None, c_error = None, c_heap = h'\<rparr>
        else
          \<lparr>c_rc = SYSMON_OK,
           c_state = Some \<lparr>last_total = 0, last_idle = 0, last_usage_percent = 0,
                           core_count = os_core_count os, has_prev = False\<rparr>,
           c_error = None, c_heap = h'\<rparr>)"

text \<open>The block of \<^verbatim>\<open>cpu_poll\<close> that runs after the ticks have been read.\<close>

definition cpu_refresh :: "cpu_state \<Rightarrow> 64 word \<Rightarrow> 64 word \<Rightarrow> cpu_state" where
  "cpu_refresh st ticks_total ticks_idle =
     (let st1 =
        (if has_prev st then
           (let total_delta = ticks_total - last_total st;
                idle_delta = ticks_idle - last_idle st
            in if total_delta > 0 \<and> idle_delta \<le> total_delta
               then st\<lparr>last_usage_percent :=
                         double_div (double_mul (double_of_u64 (total_delta - idle_delta)) 100)
                           (double_of_u64 total_delta)\<rparr>
               else st)
         else st\<lparr>has_prev := True\<rparr>)
      in st1\<lparr>last_total := ticks_total, last_idle := ticks_idle\<rparr>)"

definition cpu_adds :: "cpu_state \<Rightarrow> metric_add list" where
  "cpu_adds st =
     Add_double ''cpu.usage_percent'' (Some ''%'') (last_usage_percent st) #
     (if core_count st > 0 then [Add_u64 ''cpu.core_count'' None (ucast (core_count st))] else [])"

definition cpu_poll ::
  "cpu_state option \<Rightarrow> 64 word \<Rightarrow> bool \<Rightarrow> sysmon_snapshot_builder option \<Rightarrow> os_reads \<Rightarrow> heap \<Rightarrow>
     cpu_state poll_out" where
  "cpu_poll state now_ms refresh_now builder os h =
     (case (state, builder) of
        (Some st, Some b) \<Rightarrow>
          if refresh_now \<or> \<not> has_prev st then
            (case os_cpu_ticks os of
               Inl err \<Rightarrow> read_failed SYSMON_ERR_NOT_SUPPORTED st b err ''failed to read cpu ticks'' h
             | Inr (ticks_total, ticks_idle) \<Rightarrow>
                 (let st' = cpu_refresh st ticks_total ticks_idle in emit st' (cpu_adds st') b h))
          else emit st (cpu_adds st) b h
      | _ \<Rightarrow>
          \<lparr>p_rc = SYSMON_ERR_INVALID_ARGUMENT, p_state = state, p_builder = builder,
           p_error = None, p_heap = h\<rparr>)"

text \<open>The states the module can be in: the one \<open>cpu_create\<close> makes, and those \<open>cpu_poll\<close> leaves.\<close>

inductive cpu_reachable :: "cpu_state \<Rightarrow> bool" where
  cpu_created: "c_state (cpu_create ini section os h) = Some st \<Longrightarrow> cpu_reachable st"
| cpu_polled: "cpu_reachable st \<Longrightarrow>
     p_state (cpu_poll (Some st) now_ms refresh_now builder os h) = Some st' \<Longrightarrow>
     cpu_reachable st'"

section \<open>The ram module (ram.c)\<close>

record ram_state =
  total_bytes :: "64 word"
  ram_last_used_bytes :: "64 word"
  ram_last_free_bytes :: "64 word"
  ram_last_used_percent :: real
  ram_has_data :: bool

definition ram_create :: "sysmon_ini option \<Rightarrow> string \<Rightarrow> os_reads \<Rightarrow> heap \<Rightarrow> ram_state create_out" where
  "ram_create ini section os h =
     (case alloc h of (ok, h') \<Rightarrow>
        if \<not> ok then
          \<lparr>c_rc = SYSMON_ERR_OUT_OF_MEMORY, c_state = None, c_error = None, c_heap = h'\<rparr>
        else
          (case os_total_mem os of
             Inl err \<Rightarrow>
               (case sysmon_set_error
                    (Some (case err of None \<Rightarrow> ''failed to read total memory'' | Some e \<Rightarrow> e)) h' of
                  (e', h'') \<Rightarrow>
                    \<lparr>c_rc = SYSMON_ERR_NOT_SUPPORTED, c_state = None, c_error = e', c_heap = h''\<rparr>)
           | Inr t \<Rightarrow>
               \<lparr>c_rc = SYSMON_OK,
                c_state = Some \<lparr>total_bytes = t, ram_last_used_bytes = 0, ram_last_free_bytes = 0,
                                ram_last_used_percent = 0, ram_has_data = False\<rparr>,
                c_error = None, c_heap = h'\<rparr>))"

definition ram_refresh :: "ram_state \<Rightarrow> 64 word \<Rightarrow> 64 word \<Rightarrow> ram_state" where
  "ram_refresh st used free_b =
     st\<lparr>ram_last_used_bytes := used, ram_last_free_bytes := free_b,
        ram_last_used_percent :=
          (if total_bytes st > 0 then real (unat used) * 100 / real (unat (total_bytes st)) else 0),
        ram_has_data := True\<rparr>"

definition ram_adds :: "ram_state \<Rightarrow> metric_add list" where
  "ram_adds st =
     [Add_u64 ''ram.total_bytes'' (Some ''B'') (total_bytes st),
      Add_u64 ''ram.used_bytes'' (Some ''B'') (ram_last_used_bytes st),
      Add_u64 ''ram.free_bytes'' (Some ''B'') (ram_last_free_bytes st)] @
     (if total_bytes st > 0
      then [Add_double ''ram.used_percent'' (Some ''%'') (ram_last_used_percent st)] else [])"

definition ram_poll ::
  "ram_state option \<Rightarrow> 64 word \<Rightarrow> bool \<Rightarrow> sysmon_snapshot_builder option \<Rightarrow> os_reads \<Rightarrow> heap \<Rightarrow>
     ram_state poll_out" where
  "ram_poll state now_ms refresh_now builder os h =
     (case (state, builder) of
        (Some st, Some b) \<Rightarrow>
          if refresh_now \<or> \<not> ram_has_data st then
            (case os_mem_used_free os (total_bytes st) of
               Inl err \<Rightarrow> read_failed SYSMON_ERR_NOT_SUPPORTED st b err ''failed to read memory usage'' h
             | Inr (used, free_b) \<Rightarrow>
                 (let st' = ram_refresh st used free_b in emit st' (ram_adds st') b h))
          else emit st (ram_adds st) b h
      | _ \<Rightarrow>
          \<lparr>p_rc = SYSMON_ERR_INVALID_ARGUMENT, p_state = state, p_builder = builder,
           p_error = None, p_heap = h\<rparr>)"

section \<open>The battery module (battery.c, as built on Linux)\<close>

record battery_state =
  base_path :: string
  last_percent :: real
  last_is_charging :: "64 word"
  last_status :: string
  bat_has_data :: bool

definition battery_create ::
  "sysmon_ini option \<Rightarrow> string \<Rightarrow> os_reads \<Rightarrow> heap \<Rightarrow> battery_state create_out" where
  "battery_create ini section os h =
     (case alloc h of (ok, h') \<Rightarrow>
        if \<not> ok then
          \<lparr>c_rc = SYSMON_ERR_OUT_OF_MEMORY, c_state = None, c_error = None, c_heap = h'\<rparr>
        else
          (case os_battery_path os of
             Inl err \<Rightarrow>
               (case sysmon_set_error
                    (Some (case err of None \<Rightarrow> ''battery not detected'' | Some e \<Rightarrow> e)) h' of
                  (e', h'') \<Rightarrow>
                    \<lparr>c_rc = SYSMON_ERR_NOT_SUPPORTED, c_state = None, c_error = e', c_heap = h''\<rparr>)
           | Inr path \<Rightarrow>
               \<lparr>c_rc = SYSMON_OK,
                c_state = Some \<lparr>base_path = path, last_percent = 0, last_is_charging = 0,
                                last_status = ''unknown'', bat_has_data = False\<rparr>,
                c_error = None, c_heap = h'\<rparr>))"

definition battery_adds :: "battery_state \<Rightarrow> metric_add list" where
  "battery_adds st =
     [Add_double ''battery.percent'' (Some ''%'') (last_percent st),
      Add_i64 ''battery.is_charging'' None (last_is_charging st),
      Add_string ''battery.status'' None (Some (last_status st))]"

definition battery_refresh :: "battery_state \<Rightarrow> 32 word \<Rightarrow> string option \<Rightarrow> battery_state" where
  "battery_refresh st cap status =
     (let st1 = st\<lparr>last_percent := real (unat cap)\<rparr>;
          st2 = (case status of None \<Rightarrow> st1 | Some s \<Rightarrow> st1\<lparr>last_status := take 31 s\<rparr>)
      in st2\<lparr>last_is_charging := (if strcasecmp_eq (last_status st2) ''Charging'' then 1 else 0),
             bat_has_data := True\<rparr>)"

definition battery_poll ::
  "battery_state option \<Rightarrow> 64 word \<Rightarrow> bool \<Rightarrow> sysmon_snapshot_builder option \<Rightarrow> os_reads \<Rightarrow> heap \<Rightarrow>
     battery_state poll_out" where
  "battery_poll state now_ms refresh_now builder os h =
     (case (state, builder) of
        (Some st, Some b) \<Rightarrow>
          if refresh_now \<or> \<not> bat_has_data st then
            (case os_u32_file os (take 319 (base_path st @ ''/capacity'')) of
               None \<Rightarrow>
                 read_failed SYSMON_ERR_NOT_SUPPORTED st b
                   (Some ''failed to read battery capacity'') [] h
             | Some cap \<Rightarrow>
                 (let st' = battery_refresh st cap
                       (os_string_file os (take 319 (base_path st @ ''/status'')))
                  in emit st' (battery_adds st') b h))
          else emit st (battery_adds st) b h
      | _ \<Rightarrow>
          \<lparr>p_rc = SYSMON_ERR_INVALID_ARGUMENT, p_state = state, p_builder = builder,
           p_error = None, p_heap = h\<rparr>)"

section \<open>The network module (network.c)\<close>

record network_state =
  ifname :: string
  include_loopback :: bool
  last_rx_bytes :: "64 word"
  last_tx_bytes :: "64 word"
  last_ts_ms :: "64 word"
  last_rx_rate :: real
  last_tx_rate :: real
  net_has_data :: bool

text \<open>\<^verbatim>\<open>copy_ifname\<close> into a buffer of \<^verbatim>\<open>SYSMON_IFNAME_LEN = 64\<close> bytes.\<close>

definition copy_ifname :: "string option \<Rightarrow> string" where
  "copy_ifname src = (case src of None \<Rightarrow> [] | Some s \<Rightarrow> take 63 s)"

definition network_create ::
  "sysmon_ini option \<Rightarrow> string \<Rightarrow> os_reads \<Rightarrow> heap \<Rightarrow> network_state create_out" where
  "network_create ini section os h =
     (case alloc h of (ok, h') \<Rightarrow>
        if \<not> ok then
          \<lparr>c_rc = SYSMON_ERR_OUT_OF_MEMORY, c_state = None, c_error = None, c_heap = h'\<rparr>
        else
          (let loopback = sysmon_ini_get_bool ini (Some section) (Some ''include_loopback'') False;
               iface = sysmon_ini_get ini (Some section) (Some ''interface'');
               name = (if iface \<noteq> None \<and> the iface \<noteq> [] then copy_ifname iface else [])
           in case os_interface_bytes os (if name \<noteq> [] then Some name else None) loopback of
                Inl err \<Rightarrow>
                  (case sysmon_set_error
                       (Some (case err of None \<Rightarrow> ''network interface not available'' | Some e \<Rightarrow> e)) h' of
                     (e', h'') \<Rightarrow>
                       \<lparr>c_rc = SYSMON_ERR_NOT_SUPPORTED, c_state = None, c_error = e', c_heap = h''\<rparr>)
              | Inr (rx, tx, selected) \<Rightarrow>
                  \<lparr>c_rc = SYSMON_OK,
                   c_state = Some \<lparr>ifname = (if name = [] then copy_ifname (Some selected) else name),
                                   include_loopback = loopback,
                                   last_rx_bytes = 0, last_tx_bytes = 0, last_ts_ms = 0,
                                   last_rx_rate = 0, last_tx_rate = 0, net_has_data = False\<rparr>,
                   c_error = None, c_heap = h'\<rparr>))"

text \<open>The block of \<^verbatim>\<open>network_poll\<close> that runs after the counters have been read.\<close>

definition network_refresh :: "network_state \<Rightarrow> 64 word \<Rightarrow> 64 word \<Rightarrow> 64 word \<Rightarrow> network_state" where
  "network_refresh st now_ms rx tx =
     (let st1 =
        (if net_has_data st \<and> last_ts_ms st > 0 \<and> now_ms > last_ts_ms st then
           (let seconds = real (unat (now_ms - last_ts_ms st)) / 1000;
                rx_delta = (if rx \<ge> last_rx_bytes st then rx - last_rx_bytes st else 0);
                tx_delta = (if tx \<ge> last_tx_bytes st then tx - last_tx_bytes st else 0)
            in st\<lparr>last_rx_rate := (if seconds > 0 then real (unat rx_delta) / seconds else 0),
                  last_tx_rate := (if seconds > 0 then real (unat tx_delta) / seconds else 0)\<rparr>)
         else st\<lparr>last_rx_rate := 0, last_tx_rate := 0\<rparr>)
      in st1\<lparr>last_rx_bytes := rx, last_tx_bytes := tx, last_ts_ms := now_ms, net_has_data := True\<rparr>)"

definition network_adds :: "network_state \<Rightarrow> metric_add list" where
  "network_adds st =
     [Add_string ''network.interface'' None (Some (ifname st)),
      Add_u64 ''network.rx_bytes'' (Some ''B'') (last_rx_bytes st),
      Add_u64 ''network.tx_bytes'' (Some ''B'') (last_tx_bytes st),
      Add_double ''network.rx_bytes_per_sec'' (Some ''B/s'') (last_rx_rate st),
      Add_double ''network.tx_bytes_per_sec'' (Some ''B/s'') (last_tx_rate st)]"

definition network_poll ::
  "network_state option \<Rightarrow> 64 word \<Rightarrow> bool \<Rightarrow> sysmon_snapshot_builder option \<Rightarrow> os_reads \<Rightarrow> heap \<Rightarrow>
     network_state poll_out" where
  "network_poll state now_ms refresh_now builder os h =
     (case (state, builder) of
        (Some st, Some b) \<Rightarrow>
          if refresh_now \<or> \<not> net_has_data st then
            (case os_interface_bytes os (Some (ifname st)) (include_loopback st) of
               Inl err \<Rightarrow> read_failed SYSMON_ERR_IO st b err ''failed to read network counters'' h
             | Inr (rx, tx, selected) \<Rightarrow>
                 (let st' = network_refresh st now_ms rx tx in emit st' (network_adds st') b h))
          else emit st (network_adds st) b h
      | _ \<Rightarrow>
          \<lparr>p_rc = SYSMON_ERR_INVALID_ARGUMENT, p_state = state, p_builder = builder,
           p_error = None, p_heap = h\<rparr>)"

inductive network_reachable :: "network_state \<Rightarrow> bool" where
  network_created: "c_state (network_create ini section os h) = Some st \<Longrightarrow> network_reachable st"
| network_polled: "network_reachable st \<Longrightarrow>
     p_state (network_poll (Some st) now_ms refresh_now builder os h) = Some st' \<Longrightarrow>
     network_reachable st'"

section \<open>The storage module (storage.c)\<close>

record storage_state =
  path :: string
  sto_last_total_bytes :: "64 word"
  sto_last_free_bytes :: "64 word"
  sto_last_avail_bytes :: "64 word"
  sto_last_used_bytes :: "64 word"
  sto_last_used_percent :: real
  sto_has_data :: bool

text \<open>\<^verbatim>\<open>copy_path\<close> into a buffer of \<^verbatim>\<open>SYSMON_STORAGE_PATH_LEN = 256\<close> bytes.\<close>

definition copy_path :: "string option \<Rightarrow> string" where
  "copy_path src = (case src of None \<Rightarrow> [] | Some s \<Rightarrow> take 255 s)"

definition storage_create ::
  "sysmon_ini option \<Rightarrow> string \<Rightarrow> os_reads \<Rightarrow> heap \<Rightarrow> storage_state create_out" where
  "storage_create ini section os h =
     (case alloc h of (ok, h') \<Rightarrow>
        if \<not> ok then
          \<lparr>c_rc = SYSMON_ERR_OUT_OF_MEMORY, c_state = None, c_error = None, c_heap = h'\<rparr>
        else
          (let configured = sysmon_ini_get ini (Some section) (Some ''path'');
               p = copy_path (if configured = None \<or> the configured = [] then Some ''/'' else configured)
           in case os_storage_stats os p of
                Inl err \<Rightarrow>
                  (case sysmon_set_error
                       (Some (case err of None \<Rightarrow> ''failed to read storage stats'' | Some e \<Rightarrow> e)) h' of
                     (e', h'') \<Rightarrow>
                       \<lparr>c_rc = SYSMON_ERR_NOT_SUPPORTED, c_state = None, c_error = e', c_heap = h''\<rparr>)
              | Inr (t, f, a) \<Rightarrow>
                  \<lparr>c_rc = SYSMON_OK,
                   c_state = Some \<lparr>path = p, sto_last_total_bytes = 0, sto_last_free_bytes = 0,
                                   sto_last_avail_bytes = 0, sto_last_used_bytes = 0,
                                   sto_last_used_percent = 0, sto_has_data = False\<rparr>,
                   c_error = None, c_heap = h'\<rparr>))"

text \<open>The block of \<^verbatim>\<open>storage_poll\<close> that runs after the statistics have been read.\<close>

definition storage_refresh :: "storage_state \<Rightarrow> 64 word \<Rightarrow> 64 word \<Rightarrow> 64 word \<Rightarrow> storage_state" where
  "storage_refresh st total_b free_b avail =
     (let used = (if total_b \<ge> free_b then total_b - free_b else 0)
      in st\<lparr>sto_last_total_bytes := total_b, sto_last_free_bytes := free_b,
            sto_last_avail_bytes := avail, sto_last_used_bytes := used,
            sto_last_used_percent :=
              (if total_b > 0 then real (unat used) * 100 / real (unat total_b) else 0),
            sto_has_data := True\<rparr>)"

definition storage_adds :: "storage_state \<Rightarrow> metric_add list" where
  "storage_adds st =
     [Add_string ''storage.path'' None (Some (path st)),
      Add_u64 ''storage.total_bytes'' (Some ''B'') (sto_last_total_bytes st),
      Add_u64 ''storage.used_bytes'' (Some ''B'') (sto_last_used_bytes st),
      Add_u64 ''storage.free_bytes'' (Some ''B'') (sto_last_free_bytes st),
      Add_u64 ''storage.available_bytes'' (Some ''B'') (sto_last_avail_bytes st),
      Add_double ''storage.used_percent'' (Some ''%'') (sto_last_used_percent st)]"

definition storage_poll ::
  "storage_state option \<Rightarrow> 64 word \<Rightarrow> bool \<Rightarrow> sysmon_snapshot_builder option \<Rightarrow> os_reads \<Rightarrow> heap \<Rightarrow>
     storage_state poll_out" where
  "storage_poll state now_ms refresh_now builder os h =
     (case (state, builder) of
        (Some st, Some b) \<Rightarrow>
          if refresh_now \<or> \<not> sto_has_data st then
            (case os_storage_stats os (path st) of
               Inl err \<Rightarrow> read_failed SYSMON_ERR_IO st b err ''failed to read storage stats'' h
             | Inr (t, f, a) \<Rightarrow>
                 (let st' = storage_refresh st t f a in emit st' (storage_adds st') b h))
          else emit st (storage_adds st) b h
      | _ \<Rightarrow>
          \<lparr>p_rc = SYSMON_ERR_INVALID_ARGUMENT, p_state = state, p_builder = builder,
           p_error = None, p_heap = h\<rparr>)"

section \<open>The module table (sysmon_internal.h, builtin.c)\<close>

text \<open>
  \<^verbatim>\<open>sysmon_module_vtable_t\<close>.  The type \<open>'s\<close> is what \<^verbatim>\<open>void *state\<close> points to.  \<open>vt_poll\<close> is
  \<open>None\<close> for a \<^verbatim>\<open>NULL\<close> function pointer; every \<^verbatim>\<open>destroy\<close> of the repository is
  \<^verbatim>\<open>free(state)\<close>, so \<open>vt_destroy\<close> only says whether the pointer is set.
\<close>

record 's sysmon_module_vtable =
  vt_name :: string
  vt_create :: "sysmon_ini option \<Rightarrow> string \<Rightarrow> os_reads \<Rightarrow> heap \<Rightarrow> 's create_out"
  vt_poll :: "('s option \<Rightarrow> 64 word \<Rightarrow> bool \<Rightarrow> sysmon_snapshot_builder option \<Rightarrow> os_reads \<Rightarrow> heap \<Rightarrow>
                's poll_out) option"
  vt_destroy :: bool

record 's sysmon_module_instance =
  vtable :: "'s sysmon_module_vtable option"
  mod_state :: "'s option"
  enabled :: bool
  refresh_ms :: "32 word"
  last_refresh_ms :: "64 word"

text \<open>The states of the built-in modules, and the casts of \<^verbatim>\<open>void *state\<close> to them.\<close>

datatype module_state =
    Cpu_state cpu_state
  | Ram_state ram_state
  | Battery_state battery_state
  | Network_state network_state
  | Storage_state storage_state

definition as_cpu :: "module_state option \<Rightarrow> cpu_state option" where
  "as_cpu s = (case s of Some (Cpu_state c) \<Rightarrow> Some c | _ \<Rightarrow> None)"

definition as_ram :: "module_state option \<Rightarrow> ram_state option" where
  "as_ram s = (case s of Some (Ram_state c) \<Rightarrow> Some c | _ \<Rightarrow> None)"

definition as_battery :: "module_state option \<Rightarrow> battery_state option" where
  "as_battery s = (case s of Some (Battery_state c) \<Rightarrow> Some c | _ \<Rightarrow> None)"

definition as_network :: "module_state option \<Rightarrow> network_state option" where
  "as_network s = (case s of Some (Network_state c) \<Rightarrow> Some c | _ \<Rightarrow> None)"

definition as_storage :: "module_state option \<Rightarrow> storage_state option" where
  "as_storage s = (case s of Some (Storage_state c) \<Rightarrow> Some c | _ \<Rightarrow> None)"

definition lift_create :: "('a \<Rightarrow> module_state) \<Rightarrow> 'a create_out \<Rightarrow> module_state create_out" where
  "lift_create wrap out =
     \<lparr>c_rc = c_rc out, c_state = map_option wrap (c_state out), c_error = c_error out,
      c_heap = c_heap out\<rparr>"

definition lift_poll :: "('a \<Rightarrow> module_state) \<Rightarrow> 'a poll_out \<Rightarrow> module_state poll_out" where
  "lift_poll wrap out =
     \<lparr>p_rc = p_rc out, p_state = map_option wrap (p_state out), p_builder = p_builder out,
      p_error = p_error out, p_heap = p_heap out\<rparr>"

definition sysmon_cpu_module :: "module_state sysmon_module_vtable" where
  "sysmon_cpu_module =
     \<lparr>vt_name = ''cpu'',
      vt_create = (\<lambda>ini sect os h. lift_create Cpu_state (cpu_create ini sect os h)),
      vt_poll = Some (\<lambda>st now_ms refresh_now builder os h.
                  lift_poll Cpu_state (cpu_poll (as_cpu st) now_ms refresh_now builder os h)),
      vt_destroy = True\<rparr>"

definition sysmon_ram_module :: "module_state sysmon_module_vtable" where
  "sysmon_ram_module =
     \<lparr>vt_name = ''ram'',
      vt_create = (\<lambda>ini sect os h. lift_create Ram_state (ram_create ini sect os h)),
      vt_poll = Some (\<lambda>st now_ms refresh_now builder os h.
                  lift_poll Ram_state (ram_poll (as_ram st) now_ms refresh_now builder os h)),
      vt_destroy = True\<rparr>"

definition sysmon_battery_module :: "module_state sysmon_module_vtable" where
  "sysmon_battery_module =
     \<lparr>vt_name = ''battery'',
      vt_create = (\<lambda>ini sect os h. lift_create Battery_state (battery_create ini sect os h)),
      vt_poll = Some (\<lambda>st now_ms refresh_now builder os h.
                  lift_poll Battery_state
                    (battery_poll (as_battery st) now_ms refresh_now builder os h)),
      vt_destroy = True\<rparr>"

definition sysmon_network_module :: "module_state sysmon_module_vtable" where
  "sysmon_network_module =
     \<lparr>vt_name = ''network'',
      vt_create = (\<lambda>ini sect os h. lift_create Network_state (network_create ini sect os h)),
      vt_poll = Some (\<lambda>st now_ms refresh_now builder os h.
                  lift_poll Network_state
                    (network_poll (as_network st) now_ms refresh_now builder os h)),
      vt_destroy = True\<rparr>"

definition sysmon_storage_module :: "module_state sysmon_module_vtable" where
  "sysmon_storage_module =
     \<lparr>vt_name = ''storage'',
      vt_create = (\<lambda>ini sect os h. lift_create Storage_state (storage_create ini sect os h)),
      vt_poll = Some (\<lambda>st now_ms refresh_now builder os h.
                  lift_poll Storage_state
                    (storage_poll (as_storage st) now_ms refresh_now builder os h)),
      vt_destroy = True\<rparr>"

text \<open>\<^verbatim>\<open>sysmon_builtin_modules\<close>: the array \<^verbatim>\<open>modules[4]\<close> and \<^verbatim>\<open>*out_count = 4\<close>.\<close>

definition sysmon_builtin_modules :: "module_state sysmon_module_vtable list" where
  "sysmon_builtin_modules =
     [sysmon_cpu_module, sysmon_ram_module, sysmon_battery_module, sysmon_network_module]"

section \<open>The engine (sysmon.c, time.c)\<close>

record 's sysmon =
  sm_config :: sysmon_config
  sm_ini :: "sysmon_ini option"
  sm_modules :: "'s sysmon_module_instance list"
  sm_last_error :: "string option"

text \<open>
  The monotonic clock: what each successive \<^verbatim>\<open>clock_gettime\<close> gives (seconds and
  nanoseconds, \<open>None\<close> when the call fails) and how many calls have been made.
\<close>

record clock =
  readings :: "nat \<Rightarrow> (64 word \<times> 64 word) option"
  reads :: nat

definition sysmon_now_ms :: "clock \<Rightarrow> 64 word \<times> clock" where
  "sysmon_now_ms clk =
     ((case readings clk (reads clk) of
         None \<Rightarrow> 0
       | Some (tv_sec, tv_nsec) \<Rightarrow> tv_sec * 1000 + tv_nsec div 1000000),
      clk\<lparr>reads := Suc (reads clk)\<rparr>)"

text \<open>An element of \<^verbatim>\<open>calloc(builtin_count, sizeof(*sysmon->modules))\<close>.\<close>

definition zero_instance :: "'s sysmon_module_instance" where
  "zero_instance =
     \<lparr>vtable = None, mod_state = None, enabled = False, refresh_ms = 0, last_refresh_ms = 0\<rparr>"

text \<open>
  The loop of \<^verbatim>\<open>init_modules\<close> from index \<open>i\<close> on, over the built-in table that is left:
  the result code, the array from \<open>i\<close> on, \<^verbatim>\<open>sysmon->last_error\<close> and the heap.  \<open>i_creates\<close>
  records, for each module of the table, whether its \<^verbatim>\<open>create\<close> was called and the code it
  returned.
\<close>

datatype init_step =
    Not_reached
  | Parse_failed
  | Disabled
  | Created sysmon_result

record 's init_out =
  i_rc :: sysmon_result
  i_modules :: "'s sysmon_module_instance list"
  i_last_error :: "string option"
  i_heap :: heap
  i_creates :: "init_step list"

fun init_loop ::
  "'s sysmon_module_vtable list \<Rightarrow> sysmon_ini option \<Rightarrow> os_reads \<Rightarrow> string option \<Rightarrow> heap \<Rightarrow>
     's init_out" where
  "init_loop [] ini os le h =
     \<lparr>i_rc = SYSMON_OK, i_modules = [], i_last_error = le, i_heap = h, i_creates = []\<rparr>"
| "init_loop (vt # vts) ini os le h =
     (let sect = take 127 (''module.'' @ vt_name vt);
          en = sysmon_ini_get_bool ini (Some sect) (Some ''enabled'') True;
          (r, ok) = sysmon_ini_get_u32 ini (Some sect) (Some ''refresh_ms'') 0;
          inst = \<lparr>vtable = Some vt, mod_state = None, enabled = en, refresh_ms = r,
                  last_refresh_ms = 0\<rparr>
      in if \<not> ok then
           (case sysmon_set_error (Some ''invalid refresh_ms (must be uint32)'') h of
              (le', h') \<Rightarrow>
                \<lparr>i_rc = SYSMON_ERR_PARSE,
                 i_modules = inst # replicate (length vts) zero_instance,
                 i_last_error = le', i_heap = h',
                 i_creates = Parse_failed # replicate (length vts) Not_reached\<rparr>)
         else if \<not> en then
           (let out = init_loop vts ini os le h
            in out\<lparr>i_modules := inst # i_modules out, i_creates := Disabled # i_creates out\<rparr>)
         else
           (let c = vt_create vt ini sect os h;
                inst1 = inst\<lparr>mod_state := c_state c\<rparr>
            in if c_rc c = SYSMON_ERR_NOT_SUPPORTED then
                 (let out = init_loop vts ini os le (c_heap c)
                  in out\<lparr>i_modules := inst1\<lparr>enabled := False\<rparr> # i_modules out,
                         i_creates := Created (c_rc c) # i_creates out\<rparr>)
               else if c_rc c \<noteq> SYSMON_OK then
                 (case sysmon_set_error
                      (Some (case c_error c of None \<Rightarrow> ''module create failed'' | Some e \<Rightarrow> e))
                      (c_heap c) of
                    (le', h') \<Rightarrow>
                      \<lparr>i_rc = c_rc c,
                       i_modules = inst1 # replicate (length vts) zero_instance,
                       i_last_error = le', i_heap = h',
                       i_creates = Created (c_rc c) # replicate (length vts) Not_reached\<rparr>)
               else
                 (let out = init_loop vts ini os le (c_heap c)
                  in out\<lparr>i_modules := inst1 # i_modules out,
                         i_creates := Created (c_rc c) # i_creates out\<rparr>)))"

text \<open>
  \<^verbatim>\<open>init_modules\<close>; \<open>builtins\<close> is what \<^verbatim>\<open>sysmon_builtin_modules\<close> returns.  The result is the
  code, the engine as the function leaves it, the heap and the record of the \<^verbatim>\<open>create\<close>
  calls.
\<close>

definition init_modules ::
  "'s sysmon_module_vtable list \<Rightarrow> 's sysmon \<Rightarrow> os_reads \<Rightarrow> heap \<Rightarrow>
     sysmon_result \<times> 's sysmon \<times> heap \<times> init_step list" where
  "init_modules builtins sysmon os h =
     (if builtins = [] then (SYSMON_ERR_INTERNAL, sysmon, h, [])
      else
        (case alloc h of (ok, h1) \<Rightarrow>
           if \<not> ok then (SYSMON_ERR_OUT_OF_MEMORY, sysmon, h1, map (\<lambda>v. Not_reached) builtins)
           else
             (let out = init_loop builtins (sm_ini sysmon) os (sm_last_error sysmon) h1
              in (i_rc out,
                  sysmon\<lparr>sm_modules := i_modules out, sm_last_error := i_last_error out\<rparr>,
                  i_heap out, i_creates out))))"

text \<open>
  \<^verbatim>\<open>sysmon_destroy\<close>: the names of the modules whose \<^verbatim>\<open>destroy\<close> is called, in order.
  Nothing of the engine can be used after the call.
\<close>

definition sysmon_destroy :: "'s sysmon option \<Rightarrow> string list" where
  "sysmon_destroy sysmon =
     (case sysmon of
        None \<Rightarrow> []
      | Some s \<Rightarrow>
          map (\<lambda>inst. vt_name (the (vtable inst)))
            (filter (\<lambda>inst. mod_state inst \<noteq> None \<and> vtable inst \<noteq> None \<and>
                       vt_destroy (the (vtable inst)))
               (sm_modules s)))"

text \<open>
  \<^verbatim>\<open>sysmon_create\<close>.  \<open>options\<close> is \<open>None\<close> for a \<^verbatim>\<open>NULL\<close> pointer and else holds \<^verbatim>\<open>ini_path\<close>;
  \<open>out_sysmon\<close> says whether that pointer is set; \<open>load_file\<close> is the outcome of
  \<^verbatim>\<open>sysmon_ini_load_file\<close> for a path.  The result holds the handle written to
  \<^verbatim>\<open>*out_sysmon\<close>, the modules destroyed on the way and the record of the \<^verbatim>\<open>create\<close> calls.
\<close>

record 's create_result =
  cr_rc :: sysmon_result
  cr_sysmon :: "'s sysmon option"
  cr_destroyed :: "string list"
  cr_heap :: heap
  cr_creates :: "init_step list"

definition sysmon_create ::
  "string option option \<Rightarrow> bool \<Rightarrow>
   (string \<Rightarrow> sysmon_result \<times> sysmon_ini option \<times> string option) \<Rightarrow> os_reads \<Rightarrow> heap \<Rightarrow>
     module_state create_result" where
  "sysmon_create options out_sysmon load_file os h =
     (if \<not> out_sysmon then
        \<lparr>cr_rc = SYSMON_ERR_INVALID_ARGUMENT, cr_sysmon = None, cr_destroyed = [], cr_heap = h,
         cr_creates = []\<rparr>
      else
        (case alloc h of (ok, h1) \<Rightarrow>
           if \<not> ok then
             \<lparr>cr_rc = SYSMON_ERR_OUT_OF_MEMORY, cr_sysmon = None, cr_destroyed = [], cr_heap = h1,
              cr_creates = []\<rparr>
           else
             (let ini_path = (case options of None \<Rightarrow> None | Some p \<Rightarrow> p);
                  ini_path = (case ini_path of None \<Rightarrow> ''sysmon.ini'' | Some p \<Rightarrow> p);
                  s0 = \<lparr>sm_config = \<lparr>interval_ms = 0\<rparr>, sm_ini = None, sm_modules = [],
                        sm_last_error = None\<rparr>
              in case load_file ini_path of (rc, loaded, err) \<Rightarrow>
                   if rc \<noteq> SYSMON_OK then
                     (case sysmon_set_error
                          (Some (case err of None \<Rightarrow> ''failed to load ini'' | Some e \<Rightarrow> e)) h1 of
                        (le, h2) \<Rightarrow>
                          \<lparr>cr_rc = rc, cr_sysmon = None,
                           cr_destroyed =
                             sysmon_destroy (Some (s0\<lparr>sm_ini := loaded, sm_last_error := le\<rparr>)),
                           cr_heap = h2, cr_creates = []\<rparr>)
                   else
                     (case sysmon_config_load_from_ini loaded h1 of (rc1, cfg, err1, h2) \<Rightarrow>
                        if rc1 \<noteq> SYSMON_OK then
                          (case sysmon_set_error
                               (Some (case err1 of None \<Rightarrow> ''failed to load config'' | Some e \<Rightarrow> e))
                               h2 of
                             (le, h3) \<Rightarrow>
                               \<lparr>cr_rc = rc1, cr_sysmon = None,
                                cr_destroyed =
                                  sysmon_destroy
                                    (Some (s0\<lparr>sm_config := cfg, sm_ini := loaded,
                                               sm_last_error := le\<rparr>)),
                                cr_heap = h3, cr_creates = []\<rparr>)
                        else
                          (case init_modules sysmon_builtin_modules
                                  (s0\<lparr>sm_config := cfg, sm_ini := loaded\<rparr>) os h2 of
                             (rc2, s1, h3, creates) \<Rightarrow>
                               if rc2 \<noteq> SYSMON_OK then
                                 \<lparr>cr_rc = rc2, cr_sysmon = None,
                                  cr_destroyed = sysmon_destroy (Some s1), cr_heap = h3,
                                  cr_creates = creates\<rparr>
                               else
                                 \<lparr>cr_rc = SYSMON_OK, cr_sysmon = Some s1, cr_destroyed = [],
                                  cr_heap = h3, cr_creates = creates\<rparr>)))))"

text \<open>
  \<^verbatim>\<open>add_module_error\<close>, for the non-\<^verbatim>\<open>NULL\<close> name and message its one call passes: the name is
  formatted into 192 bytes, and the result of the add is dropped.
\<close>

definition add_module_error ::
  "sysmon_snapshot_builder option \<Rightarrow> string \<Rightarrow> string \<Rightarrow> heap \<Rightarrow>
     sysmon_snapshot_builder option \<times> heap" where
  "add_module_error b module_name message h =
     (case b of
        None \<Rightarrow> (None, h)
      | Some b0 \<Rightarrow>
          (case sysmon_snapshot_builder_add_string (Some b0)
                  (Some (take 191 (''module.'' @ module_name @ ''.error''))) None (Some message) h of
             (rc, b', h') \<Rightarrow> (b', h')))"

definition refresh_due :: "'s sysmon_module_instance \<Rightarrow> 64 word \<Rightarrow> bool" where
  "refresh_due inst now_ms =
     (refresh_ms inst = 0 \<or> last_refresh_ms inst = 0 \<or>
      now_ms - last_refresh_ms inst \<ge> ucast (refresh_ms inst))"

text \<open>
  The loop of \<^verbatim>\<open>sysmon_poll\<close> over the modules that are left.  \<open>l_calls\<close> records, for each
  module of the list, whether its \<^verbatim>\<open>poll\<close> was called and, when it was, the \<open>now_ms\<close> and
  \<open>refresh_now\<close> passed and the code returned.  \<open>l_aborted\<close> is the return from inside the
  loop, with the module's message in \<open>l_error\<close>.
\<close>

record 's loop_out =
  l_aborted :: bool
  l_error :: "string option"
  l_modules :: "'s sysmon_module_instance list"
  l_builder :: "sysmon_snapshot_builder option"
  l_heap :: heap
  l_calls :: "(64 word \<times> bool \<times> sysmon_result) option list"

fun poll_loop ::
  "'s sysmon_module_instance list \<Rightarrow> 64 word \<Rightarrow> sysmon_snapshot_builder option \<Rightarrow> os_reads \<Rightarrow> heap \<Rightarrow>
     's loop_out" where
  "poll_loop [] now_ms b os h =
     \<lparr>l_aborted = False, l_error = None, l_modules = [], l_builder = b, l_heap = h, l_calls = []\<rparr>"
| "poll_loop (inst # rest) now_ms b os h =
     (if \<not> enabled inst \<or> vtable inst = None \<or> vt_poll (the (vtable inst)) = None then
        (let r = poll_loop rest now_ms b os h
         in r\<lparr>l_modules := inst # l_modules r, l_calls := None # l_calls r\<rparr>)
      else
        (let refresh_now = refresh_due inst now_ms;
             out = the (vt_poll (the (vtable inst))) (mod_state inst) now_ms refresh_now b os h;
             inst1 = inst\<lparr>mod_state := p_state out\<rparr>;
             call = Some (now_ms, refresh_now, p_rc out)
         in if p_rc out = SYSMON_OK then
              (let r = poll_loop rest now_ms (p_builder out) os (p_heap out)
               in r\<lparr>l_modules :=
                       (if refresh_now then inst1\<lparr>last_refresh_ms := now_ms\<rparr> else inst1) #
                       l_modules r,
                     l_calls := call # l_calls r\<rparr>)
            else if p_rc out = SYSMON_ERR_OUT_OF_MEMORY then
              \<lparr>l_aborted = True, l_error = p_error out, l_modules = inst1 # rest,
               l_builder = p_builder out, l_heap = p_heap out,
               l_calls = call # map (\<lambda>i. None) rest\<rparr>
            else
              (case add_module_error (p_builder out) (vt_name (the (vtable inst)))
                      (case p_error out of None \<Rightarrow> ''module error'' | Some e \<Rightarrow> e)
                      (p_heap out) of
                 (b', h') \<Rightarrow>
                   (let r = poll_loop rest now_ms b' os h'
                    in r\<lparr>l_modules := inst1 # l_modules r, l_calls := call # l_calls r\<rparr>))))"

text \<open>
  \<^verbatim>\<open>sysmon_poll\<close>.  \<open>out_snapshot\<close> says whether that pointer is set.  The result holds the
  engine after the call, the snapshot written to \<^verbatim>\<open>*out_snapshot\<close>, the calls made to the
  modules, the clock and the heap.
\<close>

record 's poll_result =
  r_rc :: sysmon_result
  r_sysmon :: "'s sysmon option"
  r_snapshot :: "sysmon_snapshot option"
  r_calls :: "(64 word \<times> bool \<times> sysmon_result) option list"
  r_clock :: clock
  r_heap :: heap

definition sysmon_poll ::
  "'s sysmon option \<Rightarrow> bool \<Rightarrow> clock \<Rightarrow> os_reads \<Rightarrow> heap \<Rightarrow> 's poll_result" where
  "sysmon_poll sysmon out_snapshot clk os h =
     (case sysmon of
        None \<Rightarrow>
          \<lparr>r_rc = SYSMON_ERR_INVALID_ARGUMENT, r_sysmon = None, r_snapshot = None, r_calls = [],
           r_clock = clk, r_heap = h\<rparr>
      | Some s \<Rightarrow>
          if \<not> out_snapshot then
            \<lparr>r_rc = SYSMON_ERR_INVALID_ARGUMENT, r_sysmon = Some s, r_snapshot = None,
             r_calls = map (\<lambda>i. None) (sm_modules s), r_clock = clk, r_heap = h\<rparr>
          else
            (case sysmon_snapshot_builder_create h of (rc, builder, h1) \<Rightarrow>
               if rc \<noteq> SYSMON_OK then
                 \<lparr>r_rc = rc, r_sysmon = Some s, r_snapshot = None,
                  r_calls = map (\<lambda>i. None) (sm_modules s), r_clock = clk, r_heap = h1\<rparr>
               else
                 (case sysmon_now_ms clk of (now_ms, clk') \<Rightarrow>
                    let l = poll_loop (sm_modules s) now_ms builder os h1 in
                    if l_aborted l then
                      (case sysmon_set_error
                           (Some (case l_error l of None \<Rightarrow> ''out of memory'' | Some e \<Rightarrow> e))
                           (l_heap l) of
                         (le, h2) \<Rightarrow>
                           \<lparr>r_rc = SYSMON_ERR_OUT_OF_MEMORY,
                            r_sysmon = Some (s\<lparr>sm_modules := l_modules l, sm_last_error := le\<rparr>),
                            r_snapshot = None, r_calls = l_calls l, r_clock = clk', r_heap = h2\<rparr>)
                    else
                      (case sysmon_snapshot_builder_finalize (l_builder l) (l_heap l) of
                         (rc', b', snap, h2) \<Rightarrow>
                           \<lparr>r_rc = rc', r_sysmon = Some (s\<lparr>sm_modules := l_modules l\<rparr>),
                            r_snapshot = snap, r_calls = l_calls l, r_clock = clk',
                            r_heap = h2\<rparr>))))"

text \<open>
  What an \<^verbatim>\<open>add_*\<close> call can leave in the builder when it appends a record: the record
  asked for, or, for a string whose copy could not be allocated, the record with a \<^verbatim>\<open>NULL\<close>
  string.
\<close>

definition left_by :: "metric_add \<Rightarrow> sysmon_metric \<Rightarrow> bool" where
  "left_by a m = (m = added_metric a \<or> (\<exists>n u v. a = Add_string n u v \<and> m = (added_metric a)\<lparr>m_value := Str None\<rparr>))"

text \<open>What holds of the cached values in every reachable state of the cpu and network modules.\<close>

definition cpu_inv :: "cpu_state \<Rightarrow> bool" where
  "cpu_inv st = (0 \<le> last_usage_percent st \<and>
     (\<not> has_prev st \<longrightarrow> last_usage_percent st = 0))"

definition net_inv :: "network_state \<Rightarrow> bool" where
  "net_inv st = (0 \<le> last_rx_rate st \<and> 0 \<le> last_tx_rate st)"

section \<open>Notions used to state the properties of the engine\<close>

text \<open>
  How one module of a poll round relates to itself before the round, given the record of
  its call.
\<close>

definition module_step ::
  "64 word \<Rightarrow> 's sysmon_module_instance \<Rightarrow> 's sysmon_module_instance \<Rightarrow>
   (64 word \<times> bool \<times> sysmon_result) option \<Rightarrow> bool" where
  "module_step now_ms m m' c =
     (vtable m' = vtable m \<and> enabled m' = enabled m \<and> refresh_ms m' = refresh_ms m \<and>
      (case c of
         None \<Rightarrow> m' = m
       | Some (t, rd, rc) \<Rightarrow>
           t = now_ms \<and> rd = refresh_due m now_ms \<and> enabled m \<and>
           last_refresh_ms m' = (if rd \<and> rc = SYSMON_OK then now_ms else last_refresh_ms m)))"

text \<open>
  For the built-in modules: whether a state holds a sample, the table entry a state
  belongs to, and the call of that entry's \<^verbatim>\<open>poll\<close> on the state.
\<close>

fun has_sample :: "module_state \<Rightarrow> bool" where
  "has_sample (Cpu_state c) = has_prev c"
| "has_sample (Ram_state c) = ram_has_data c"
| "has_sample (Battery_state c) = bat_has_data c"
| "has_sample (Network_state c) = net_has_data c"
| "has_sample (Storage_state c) = sto_has_data c"

fun module_of :: "module_state \<Rightarrow> module_state sysmon_module_vtable" where
  "module_of (Cpu_state c) = sysmon_cpu_module"
| "module_of (Ram_state c) = sysmon_ram_module"
| "module_of (Battery_state c) = sysmon_battery_module"
| "module_of (Network_state c) = sysmon_network_module"
| "module_of (Storage_state c) = sysmon_storage_module"

definition module_poll ::
  "module_state \<Rightarrow> 64 word \<Rightarrow> bool \<Rightarrow> sysmon_snapshot_builder option \<Rightarrow> os_reads \<Rightarrow> heap \<Rightarrow>
     module_state poll_out" where
  "module_poll st = the (vt_poll (module_of st)) (Some st)"

text \<open>
  What holds of every module of an engine made by \<open>sysmon_create\<close> and polled any number
  of times: an enabled module has the state of its own table entry, holds a sample once
  its \<open>last_refresh_ms\<close> is not 0, and is enabled in the configuration.
\<close>

definition instance_inv :: "sysmon_ini option \<Rightarrow> module_state sysmon_module_instance \<Rightarrow> bool" where
  "instance_inv ini inst =
     (enabled inst \<longrightarrow>
        (\<exists>st. mod_state inst = Some st \<and> vtable inst = Some (module_of st) \<and>
              (last_refresh_ms inst \<noteq> 0 \<longrightarrow> has_sample st)) \<and>
        sysmon_ini_get_bool ini (Some (take 127 (''module.'' @ vt_name (the (vtable inst)))))
          (Some ''enabled'') True)"

definition engine_inv :: "module_state sysmon \<Rightarrow> bool" where
  "engine_inv s =
     (map vtable (sm_modules s) = map Some sysmon_builtin_modules \<and>
      list_all (instance_inv (sm_ini s)) (sm_modules s))"

inductive engine_reachable :: "module_state sysmon \<Rightarrow> bool" where
  engine_created:
    "cr_sysmon (sysmon_create options out_sysmon load_file os h) = Some s \<Longrightarrow> engine_reachable s"
| engine_polled:
    "engine_reachable s \<Longrightarrow> r_sysmon (sysmon_poll (Some s) out_snapshot clk os h) = Some s' \<Longrightarrow>
     engine_reachable s'"

definition mod_section :: "'s sysmon_module_vtable \<Rightarrow> string" where
  "mod_section vt = take 127 (''module.'' @ vt_name vt)"

definition cfg_enabled :: "sysmon_ini option \<Rightarrow> 's sysmon_module_vtable \<Rightarrow> bool" where
  "cfg_enabled ini vt = sysmon_ini_get_bool ini (Some (mod_section vt)) (Some ''enabled'') True"

definition cfg_refresh :: "sysmon_ini option \<Rightarrow> 's sysmon_module_vtable \<Rightarrow> 32 word \<times> bool" where
  "cfg_refresh ini vt = sysmon_ini_get_u32 ini (Some (mod_section vt)) (Some ''refresh_ms'') 0"

definition known_modules :: "module_state sysmon_module_vtable list" where
  "known_modules = sysmon_builtin_modules @ [sysmon_storage_module]"

definition ini_path_of :: "string option option \<Rightarrow> string" where
  "ini_path_of options =
     (case (case options of None \<Rightarrow> None | Some p \<Rightarrow> p) of
        None \<Rightarrow> ''sysmon.ini'' | Some p \<Rightarrow> p)"

definition numeric_string :: "string \<Rightarrow> bool" where
  "numeric_string v =
     (let s1 = dropWhile c_isspace v;
          s2 = (if s1 \<noteq> [] \<and> (hd s1 = CHR ''-'' \<or> hd s1 = CHR ''+'') then tl s1 else s1)
      in s2 \<noteq> [] \<and> list_all c_isdigit s2)"

text \<open>
  The add calls a built-in module makes for a state, and the names by which a metric is
  traced to a module: the names of a module start with the module's name and a dot, and
  \<^verbatim>\<open>add_module_error\<close> formats \<^verbatim>\<open>module.<name>.error\<close> into 192 bytes.
\<close>

fun module_adds :: "module_state \<Rightarrow> metric_add list" where
  "module_adds (Cpu_state c) = cpu_adds c"
| "module_adds (Ram_state c) = ram_adds c"
| "module_adds (Battery_state c) = battery_adds c"
| "module_adds (Network_state c) = network_adds c"
| "module_adds (Storage_state c) = storage_adds c"

text \<open>Whether a metric name starts with a prefix, and whether a metric is one of a module.\<close>

definition name_starts :: "string \<Rightarrow> sysmon_metric \<Rightarrow> bool" where
  "name_starts p m = (case m_name m of None \<Rightarrow> False | Some n \<Rightarrow> take (length p) n = p)"

definition error_name :: "string \<Rightarrow> string" where
  "error_name n = take 191 (''module.'' @ n @ ''.error'')"

definition from_module :: "string \<Rightarrow> sysmon_metric \<Rightarrow> bool" where
  "from_module n m = (name_starts (n @ ''.'') m \<or> m_name m = Some (error_name n))"

definition error_metric :: "string \<Rightarrow> string \<Rightarrow> sysmon_metric" where
  "error_metric n msg =
     \<lparr>m_name = Some (error_name n), m_unit = None, m_type = SYSMON_METRIC_STRING,
      m_value = Str (Some msg)\<rparr>"

text \<open>
  One module of a poll round taken alone, when no allocation fails: the call of its
  \<^verbatim>\<open>poll\<close> on an empty builder, the record of that call, the instance the round leaves,
  and the metrics the round appends for it (its own on \<^const>\<open>SYSMON_OK\<close>, the error
  metric otherwise).
\<close>

definition module_run ::
  "module_state sysmon_module_instance \<Rightarrow> 64 word \<Rightarrow> os_reads \<Rightarrow> module_state poll_out" where
  "module_run inst now_ms os =
     module_poll (the (mod_state inst)) now_ms (refresh_due inst now_ms)
       (Some \<lparr>b_metrics = [], b_capacity = 0\<rparr>) os []"

definition module_call ::
  "module_state sysmon_module_instance \<Rightarrow> 64 word \<Rightarrow> os_reads \<Rightarrow>
     (64 word \<times> bool \<times> sysmon_result) option" where
  "module_call inst now_ms os =
     (if enabled inst
      then Some (now_ms, refresh_due inst now_ms, p_rc (module_run inst now_ms os))
      else None)"

definition module_after ::
  "module_state sysmon_module_instance \<Rightarrow> 64 word \<Rightarrow> os_reads \<Rightarrow>
     module_state sysmon_module_instance" where
  "module_after inst now_ms os =
     (if \<not> enabled inst then inst
      else if p_rc (module_run inst now_ms os) = SYSMON_OK \<and> refresh_due inst now_ms
        then inst\<lparr>mod_state := p_state (module_run inst now_ms os), last_refresh_ms := now_ms\<rparr>
        else inst\<lparr>mod_state := p_state (module_run inst now_ms os)\<rparr>)"

definition module_metrics ::
  "module_state sysmon_module_instance \<Rightarrow> 64 word \<Rightarrow> os_reads \<Rightarrow> sysmon_metric list" where
  "module_metrics inst now_ms os =
     (if \<not> enabled inst then []
      else if p_rc (module_run inst now_ms os) = SYSMON_OK
        then b_metrics (the (p_builder (module_run inst now_ms os)))
        else [error_metric (vt_name (the (vtable inst)))
               (case p_error (module_run inst now_ms os) of
                  None \<Rightarrow> ''module error'' | Some e \<Rightarrow> e)])"

section \<open>Sample inputs\<close>

text \<open>Concrete platform readings and module states, used to run the model on examples.\<close>

definition os_sample :: os_reads where
  "os_sample =
     \<lparr>os_core_count = 4, os_cpu_ticks = Inr (2000, 1300), os_total_mem = Inr 8000,
      os_mem_used_free = (\<lambda>t. Inr (3000, 5000)), os_battery_path = Inl None,
      os_u32_file = (\<lambda>p. None), os_string_file = (\<lambda>p. None),
      os_interface_bytes = (\<lambda>r l. Inr (1100, 2200, ''eth0'')),
      os_storage_stats = (\<lambda>p. Inr (1000, 400, 300))\<rparr>"

definition net_state_at_zero :: network_state where
  "net_state_at_zero =
     \<lparr>ifname = ''eth0'', include_loopback = False, last_rx_bytes = 100, last_tx_bytes = 200,
      last_ts_ms = 0, last_rx_rate = 0, last_tx_rate = 0, net_has_data = True\<rparr>"

definition empty_builder :: sysmon_snapshot_builder where
  "empty_builder = \<lparr>b_metrics = [], b_capacity = 0\<rparr>"

definition net_state_sampled :: network_state where
  "net_state_sampled =
     \<lparr>ifname = ''eth0'', include_loopback = False, last_rx_bytes = 1100, last_tx_bytes = 2200,
      last_ts_ms = 1000, last_rx_rate = 0, last_tx_rate = 0, net_has_data = True\<rparr>"

definition os_sample_later :: os_reads where
  "os_sample_later =
     os_sample\<lparr>os_cpu_ticks := Inr (3000, 1800),
               os_interface_bytes := (\<lambda>r l. Inr (5100, 2000, ''eth0''))\<rparr>"

definition cpu_state_seeded :: cpu_state where
  "cpu_state_seeded =
     \<lparr>last_total = 2000, last_idle = 1300, last_usage_percent = 0, core_count = 4,
      has_prev = True\<rparr>"

definition storage_state_fresh :: storage_state where
  "storage_state_fresh =
     \<lparr>path = ''/'', sto_last_total_bytes = 0, sto_last_free_bytes = 0, sto_last_avail_bytes = 0,
      sto_last_used_bytes = 0, sto_last_used_percent = 0, sto_has_data = False\<rparr>"

definition ini_refresh_empty :: sysmon_ini where
  "ini_refresh_empty =
     \<lparr>entries = [\<lparr>e_section = ''module.cpu'', e_key = ''refresh_ms'', e_value = ''''\<rparr>]\<rparr>"

definition ini_refresh_text :: sysmon_ini where
  "ini_refresh_text =
     \<lparr>entries = [\<lparr>e_section = ''module.ram'', e_key = ''refresh_ms'', e_value = ''abc''\<rparr>]\<rparr>"

definition ini_file ::
  "sysmon_ini \<Rightarrow> string \<Rightarrow> sysmon_result \<times> sysmon_ini option \<times> string option" where
  "ini_file ini p = (SYSMON_OK, Some ini, None)"

definition os_before_drop :: os_reads where
  "os_before_drop = os_sample\<lparr>os_cpu_ticks := Inr (40000, 500)\<rparr>"

definition os_after_drop :: os_reads where
  "os_after_drop = os_sample\<lparr>os_cpu_ticks := Inr (8256, 500)\<rparr>"

definition cpu_state_before_drop :: cpu_state where
  "cpu_state_before_drop =
     \<lparr>last_total = 40000, last_idle = 500, last_usage_percent = 0, core_count = 4,
      has_prev = True\<rparr>"

definition ini_storage_text :: sysmon_ini where
  "ini_storage_text =
     \<lparr>entries = [\<lparr>e_section = ''module.storage'', e_key = ''refresh_ms'', e_value = ''abc''\<rparr>]\<rparr>"

text \<open>
  Engines made by \<^const>\<open>sysmon_create\<close> from a configuration, a clock that reads whole
  seconds, and two successive poll rounds of an engine whose cpu module has
  \<^verbatim>\<open>refresh_ms=5000\<close>.
\<close>

definition ini_battery_off :: sysmon_ini where
  "ini_battery_off =
     \<lparr>entries = [\<lparr>e_section = ''module.battery'', e_key = ''enabled'', e_value = ''0''\<rparr>]\<rparr>"

definition os_with_battery :: os_reads where
  "os_with_battery =
     os_sample\<lparr>os_battery_path := Inr ''/sys/class/power_supply/BAT0'',
       os_u32_file := (\<lambda>p. Some 80), os_string_file := (\<lambda>p. Some ''Charging'')\<rparr>"

definition clock_seconds :: "64 word \<Rightarrow> clock" where
  "clock_seconds t0 = \<lparr>readings = (\<lambda>n. Some (t0 + of_nat n, 0)), reads = 0\<rparr>"

definition engine_battery_off :: "module_state sysmon" where
  "engine_battery_off =
     the (cr_sysmon (sysmon_create None True (ini_file ini_battery_off) os_with_battery []))"

definition os_cpu_unreadable :: os_reads where
  "os_cpu_unreadable = os_with_battery\<lparr>os_cpu_ticks := Inl (Some ''failed to open /proc/stat'')\<rparr>"

definition metrics_ram_network :: "sysmon_metric list" where
  "metrics_ram_network =
     [\<lparr>m_name = Some ''ram.total_bytes'', m_unit = Some ''B'',
         m_type = SYSMON_METRIC_UINT64, m_value = U64 8000\<rparr>,
      \<lparr>m_name = Some ''ram.used_bytes'', m_unit = Some ''B'',
         m_type = SYSMON_METRIC_UINT64, m_value = U64 3000\<rparr>,
      \<lparr>m_name = Some ''ram.free_bytes'', m_unit = Some ''B'',
         m_type = SYSMON_METRIC_UINT64, m_value = U64 5000\<rparr>,
      \<lparr>m_name = Some ''ram.used_percent'', m_unit = Some ''%'',
         m_type = SYSMON_METRIC_DOUBLE, m_value = F64 (75 / 2)\<rparr>,
      \<lparr>m_name = Some ''network.interface'', m_unit = None,
         m_type = SYSMON_METRIC_STRING, m_value = Str (Some ''eth0'')\<rparr>,
      \<lparr>m_name = Some ''network.rx_bytes'', m_unit = Some ''B'',
         m_type = SYSMON_METRIC_UINT64, m_value = U64 1100\<rparr>,
      \<lparr>m_name = Some ''network.tx_bytes'', m_unit = Some ''B'',
         m_type = SYSMON_METRIC_UINT64, m_value = U64 2200\<rparr>,
      \<lparr>m_name = Some ''network.rx_bytes_per_sec'', m_unit = Some ''B/s'',
         m_type = SYSMON_METRIC_DOUBLE, m_value = F64 0\<rparr>,
      \<lparr>m_name = Some ''network.tx_bytes_per_sec'', m_unit = Some ''B/s'',
         m_type = SYSMON_METRIC_DOUBLE, m_value = F64 0\<rparr>]"

definition ini_cpu_interval :: sysmon_ini where
  "ini_cpu_interval =
     \<lparr>entries =
        [\<lparr>e_section = ''module.cpu'', e_key = ''refresh_ms'', e_value = ''5000''\<rparr>,
         \<lparr>e_section = ''module.ram'', e_key = ''enabled'', e_value = ''0''\<rparr>,
         \<lparr>e_section = ''module.battery'', e_key = ''enabled'', e_value = ''0''\<rparr>,
         \<lparr>e_section = ''module.network'', e_key = ''enabled'', e_value = ''0''\<rparr>]\<rparr>"

definition engine_cpu_interval :: "module_state sysmon" where
  "engine_cpu_interval =
     the (cr_sysmon (sysmon_create None True (ini_file ini_cpu_interval) os_sample []))"

definition round_one :: "64 word \<Rightarrow> module_state poll_result" where
  "round_one t0 = sysmon_poll (Some engine_cpu_interval) True (clock_seconds t0) os_sample []"

definition round_two :: "64 word \<Rightarrow> module_state poll_result" where
  "round_two t0 =
     sysmon_poll (r_sysmon (round_one t0)) True (r_clock (round_one t0)) os_sample_later []"

definition cpu_instance :: "cpu_state \<Rightarrow> 64 word \<Rightarrow> module_state sysmon_module_instance" where
  "cpu_instance st t =
     \<lparr>vtable = Some sysmon_cpu_module, mod_state = Some (Cpu_state st), enabled = True,
      refresh_ms = 5000, last_refresh_ms = t\<rparr>"

definition disabled_instance ::
  "module_state sysmon_module_vtable \<Rightarrow> module_state sysmon_module_instance" where
  "disabled_instance vt =
     \<lparr>vtable = Some vt, mod_state = None, enabled = False, refresh_ms = 0, last_refresh_ms = 0\<rparr>"

definition cpu_state_created :: cpu_state where
  "cpu_state_created =
     \<lparr>last_total = 0, last_idle = 0, last_usage_percent = 0, core_count = 4, has_prev = False\<rparr>"

definition metrics_cpu :: "real \<Rightarrow> sysmon_metric list" where
  "metrics_cpu p =
     [\<lparr>m_name = Some ''cpu.usage_percent'', m_unit = Some ''%'',
       m_type = SYSMON_METRIC_DOUBLE, m_value = F64 p\<rparr>,
      \<lparr>m_name = Some ''cpu.core_count'', m_unit = None,
       m_type = SYSMON_METRIC_UINT64, m_value = U64 4\<rparr>]"

section \<open>Properties\<close>

lemma alloc_nil: "alloc [] = (True, [])"
  by (simp add: alloc_def)

subsection \<open>The allocator and the builder\<close>

lemma alloc_heap_ok: "heap_ok h \<Longrightarrow> alloc h = (ok, h') \<Longrightarrow> ok \<and> heap_ok h'"
  by (cases h) (auto simp: alloc_def heap_ok_def)

lemma strdup_heap_ok:
  "heap_ok h \<Longrightarrow> sysmon_strdup s h = (c, h') \<Longrightarrow> c = s \<and> heap_ok h'"
  by (cases s) (auto simp: sysmon_strdup_def split: prod.splits dest: alloc_heap_ok)

lemma ensure_capacity_metrics:
  "ensure_capacity b h = (rc, b1, e, h1) \<Longrightarrow> b_metrics b1 = b_metrics b"
  by (auto simp: ensure_capacity_def Let_def split: if_splits prod.splits)

lemma ensure_capacity_heap_ok:
  "heap_ok h \<Longrightarrow> ensure_capacity b h = (rc, b1, e, h1) \<Longrightarrow> rc = SYSMON_OK \<and> heap_ok h1"
  by (auto simp: ensure_capacity_def Let_def split: if_splits prod.splits dest: alloc_heap_ok)

lemma add_common_ok:
  assumes "add_common (Some b) (Some n) u t h = (SYSMON_OK, b', e, h')"
  shows "\<exists>b1. b' = Some b1 \<and> b_metrics b1 = b_metrics b @
           [\<lparr>m_name = Some n, m_unit = u, m_type = t, m_value = zero_value t\<rparr>]"
  using assms
  by (cases u)
     (auto simp: add_common_def sysmon_strdup_def split: if_splits prod.splits
           dest: ensure_capacity_metrics)

lemma add_common_fail:
  assumes "add_common (Some b) n u t h = (rc, b', e, h')" "rc \<noteq> SYSMON_OK"
  shows "\<exists>b1. b' = Some b1 \<and> b_metrics b1 = b_metrics b"
  using assms
  by (auto simp: add_common_def split: if_splits prod.splits dest: ensure_capacity_metrics)

lemma add_common_heap_ok:
  assumes "heap_ok h" "add_common (Some b) (Some n) u t h = (rc, b', e, h')"
  shows "rc = SYSMON_OK \<and> heap_ok h'"
proof -
  obtain rc1 b1 e1 h1 where ec: "ensure_capacity b h = (rc1, b1, e1, h1)"
    by (cases "ensure_capacity b h") auto
  with assms(1) have 1: "rc1 = SYSMON_OK" "heap_ok h1" by (auto dest: ensure_capacity_heap_ok)
  obtain nc h2 where s1: "sysmon_strdup (Some n) h1 = (nc, h2)" by (cases "sysmon_strdup (Some n) h1") auto
  with 1 have 2: "nc = Some n" "heap_ok h2" by (auto dest: strdup_heap_ok)
  obtain uc h3 where s2: "sysmon_strdup u h2 = (uc, h3)" by (cases "sysmon_strdup u h2") auto
  with 2 have 3: "uc = u" "heap_ok h3" by (auto dest: strdup_heap_ok)
  show ?thesis using assms(2) ec 1 s1 2 s2 3 by (cases u) (auto simp: add_common_def)
qed

lemma set_last_value_snoc:
  "b_metrics b = ms @ [m] \<Longrightarrow> b_metrics (set_last_value b v) = ms @ [m\<lparr>m_value := v\<rparr>]"
  by (simp add: set_last_value_def b_count_def)

lemma apply_add_ok:
  assumes "apply_add a (Some b) h = (SYSMON_OK, b', h')"
  shows "\<exists>b1. b' = Some b1 \<and> b_metrics b1 = b_metrics b @ [added_metric a]"
proof (cases a)
  case (Add_double n u v)
  with assms obtain bc e where ac: "add_common (Some b) (Some n) u SYSMON_METRIC_DOUBLE h = (SYSMON_OK, bc, e, h')"
    and b': "b' = map_option (\<lambda>b. set_last_value b (F64 v)) bc"
    by (auto simp: sysmon_snapshot_builder_add_double_def split: prod.splits if_splits)
  from add_common_ok [OF ac] obtain b1 where "bc = Some b1"
    "b_metrics b1 = b_metrics b @ [\<lparr>m_name = Some n, m_unit = u, m_type = SYSMON_METRIC_DOUBLE, m_value = zero_value SYSMON_METRIC_DOUBLE\<rparr>]"
    by blast
  then show ?thesis using b' Add_double by (simp add: set_last_value_snoc)
next
  case (Add_i64 n u v)
  with assms obtain bc e where ac: "add_common (Some b) (Some n) u SYSMON_METRIC_INT64 h = (SYSMON_OK, bc, e, h')"
    and b': "b' = map_option (\<lambda>b. set_last_value b (I64 v)) bc"
    by (auto simp: sysmon_snapshot_builder_add_i64_def split: prod.splits if_splits)
  from add_common_ok [OF ac] obtain b1 where "bc = Some b1"
    "b_metrics b1 = b_metrics b @ [\<lparr>m_name = Some n, m_unit = u, m_type = SYSMON_METRIC_INT64, m_value = zero_value SYSMON_METRIC_INT64\<rparr>]"
    by blast
  then show ?thesis using b' Add_i64 by (simp add: set_last_value_snoc)
next
  case (Add_u64 n u v)
  with assms obtain bc e where ac: "add_common (Some b) (Some n) u SYSMON_METRIC_UINT64 h = (SYSMON_OK, bc, e, h')"
    and b': "b' = map_option (\<lambda>b. set_last_value b (U64 v)) bc"
    by (auto simp: sysmon_snapshot_builder_add_u64_def split: prod.splits if_splits)
  from add_common_ok [OF ac] obtain b1 where "bc = Some b1"
    "b_metrics b1 = b_metrics b @ [\<lparr>m_name = Some n, m_unit = u, m_type = SYSMON_METRIC_UINT64, m_value = zero_value SYSMON_METRIC_UINT64\<rparr>]"
    by blast
  then show ?thesis using b' Add_u64 by (simp add: set_last_value_snoc)
next
  case (Add_string n u v)
  with assms obtain bc e h1 c where ac: "add_common (Some b) (Some n) u SYSMON_METRIC_STRING h = (SYSMON_OK, bc, e, h1)"
    and sd: "sysmon_strdup (Some (case v of None \<Rightarrow> [] | Some s \<Rightarrow> s)) h1 = (c, h')" "c \<noteq> None"
    and b': "b' = map_option (\<lambda>b. set_last_value b (Str c)) bc"
    by (auto simp: sysmon_snapshot_builder_add_string_def split: prod.splits if_splits)
  from sd have c: "c = Some (case v of None \<Rightarrow> [] | Some s \<Rightarrow> s)"
    by (auto simp: sysmon_strdup_def split: prod.splits if_splits)
  from add_common_ok [OF ac] obtain b1 where "bc = Some b1"
    "b_metrics b1 = b_metrics b @ [\<lparr>m_name = Some n, m_unit = u, m_type = SYSMON_METRIC_STRING, m_value = zero_value SYSMON_METRIC_STRING\<rparr>]"
    by blast
  then show ?thesis using b' Add_string c by (simp add: set_last_value_snoc)
qed

lemma apply_add_heap_ok:
  assumes "heap_ok h" "apply_add a (Some b) h = (rc, b', h')"
  shows "rc = SYSMON_OK \<and> heap_ok h'"
  using assms
  by (cases a)
     (auto simp: sysmon_snapshot_builder_add_double_def sysmon_snapshot_builder_add_i64_def
        sysmon_snapshot_builder_add_u64_def sysmon_snapshot_builder_add_string_def
        split: prod.splits if_splits dest: add_common_heap_ok strdup_heap_ok)

lemma apply_adds_ok:
  "apply_adds adds (Some b) h = (SYSMON_OK, b', h') \<Longrightarrow>
   \<exists>b1. b' = Some b1 \<and> b_metrics b1 = b_metrics b @ map added_metric adds"
proof (induction adds arbitrary: b h)
  case Nil
  then show ?case by auto
next
  case (Cons a adds)
  then obtain bm hm where 1: "apply_add a (Some b) h = (SYSMON_OK, bm, hm)"
    and 2: "apply_adds adds bm hm = (SYSMON_OK, b', h')"
    by (auto split: prod.splits if_splits)
  from apply_add_ok [OF 1] obtain b1 where b1: "bm = Some b1" "b_metrics b1 = b_metrics b @ [added_metric a]"
    by blast
  from Cons.IH [OF 2 [unfolded b1(1)]] b1 show ?case by auto
qed

lemma apply_adds_heap_ok:
  "heap_ok h \<Longrightarrow> apply_adds adds (Some b) h = (rc, b', h') \<Longrightarrow> rc = SYSMON_OK \<and> heap_ok h' \<and> b' \<noteq> None"
proof (induction adds arbitrary: b h)
  case Nil
  then show ?case by auto
next
  case (Cons a adds)
  obtain rc1 bm hm where 1: "apply_add a (Some b) h = (rc1, bm, hm)"
    by (cases "apply_add a (Some b) h") auto
  with Cons.prems(1) have ok: "rc1 = SYSMON_OK" "heap_ok hm" by (auto dest: apply_add_heap_ok)
  with 1 apply_add_ok obtain b1 where "bm = Some b1" by blast
  with Cons.IH [OF ok(2), of b1] Cons.prems(2) 1 ok show ?case by auto
qed

lemma find_loop_find: "find_loop ms n = List.find (\<lambda>m. m_name m = Some n) ms"
  by (induction ms) auto

subsection \<open>Reading a snapshot\<close>

lemma find_loop_None: "find_loop ms n = None \<longleftrightarrow> (\<forall>i < length ms. m_name (ms ! i) \<noteq> Some n)"
proof (induction ms)
  case Nil
  then show ?case by simp
next
  case (Cons m ms)
  show ?case
  proof (cases "m_name m = Some n")
    case True
    then show ?thesis by auto
  next
    case False
    then have "find_loop (m # ms) n = find_loop ms n" by auto
    moreover have "(\<forall>i < length (m # ms). m_name ((m # ms) ! i) \<noteq> Some n) \<longleftrightarrow>
        (\<forall>i < length ms. m_name (ms ! i) \<noteq> Some n)"
      using False by (auto simp: nth_Cons split: nat.splits)
    ultimately show ?thesis using Cons.IH by simp
  qed
qed

lemma find_loop_first:
  "\<exists>i < length ms. m_name (ms ! i) = Some n \<Longrightarrow>
   \<exists>i < length ms. find_loop ms n = Some (ms ! i) \<and> m_name (ms ! i) = Some n \<and>
      (\<forall>j < i. m_name (ms ! j) \<noteq> Some n)"
proof (induction ms)
  case Nil
  then show ?case by simp
next
  case (Cons m ms)
  show ?case
  proof (cases "m_name m = Some n")
    case True
    then have "find_loop (m # ms) n = Some ((m # ms) ! 0) \<and> m_name ((m # ms) ! 0) = Some n"
      by simp
    then show ?thesis by blast
  next
    case False
    from Cons.prems obtain i where i: "i < length (m # ms)" "m_name ((m # ms) ! i) = Some n"
      by blast
    with False obtain k where k: "i = Suc k" by (cases i) auto
    with i have "\<exists>k < length ms. m_name (ms ! k) = Some n" by auto
    from Cons.IH [OF this] obtain q where q: "q < length ms" "find_loop ms n = Some (ms ! q)"
      "m_name (ms ! q) = Some n" "\<forall>j < q. m_name (ms ! j) \<noteq> Some n" by blast
    have "\<forall>j < Suc q. m_name ((m # ms) ! j) \<noteq> Some n"
      using q(4) False by (auto simp: nth_Cons split: nat.splits)
    moreover have "find_loop (m # ms) n = Some ((m # ms) ! Suc q)"
      using False q(2) by auto
    moreover have "Suc q < length (m # ms)" "m_name ((m # ms) ! Suc q) = Some n"
      using q by auto
    ultimately show ?thesis by blast
  qed
qed

text \<open>
  Claim C10.  The read interface of a snapshot is total.  The count of a \<^verbatim>\<open>NULL\<close> snapshot
  is 0.  \<open>sysmon_snapshot_metric_at\<close> gives \<^verbatim>\<open>NULL\<close> exactly when the snapshot is \<^verbatim>\<open>NULL\<close> or
  the index is at least the count, and the metric stored at the index otherwise.
  \<open>sysmon_snapshot_find\<close> gives \<^verbatim>\<open>NULL\<close> when the snapshot or the name is \<^verbatim>\<open>NULL\<close> or no metric
  has exactly that name; otherwise it gives the metric of the lowest index with that
  name, so a repeated name resolves to the metric inserted first.
\<close>

theorem snapshot_read_total:
  "sysmon_snapshot_metric_count None = 0 \<and>
   (sysmon_snapshot_metric_at snapshot index = None \<longleftrightarrow>
      (snapshot = None \<or> index \<ge> sysmon_snapshot_metric_count snapshot)) \<and>
   (\<forall>s. snapshot = Some s \<and> index < s_count s \<longrightarrow>
      sysmon_snapshot_metric_at snapshot index = Some (s_metrics s ! index)) \<and>
   sysmon_snapshot_find None name = None \<and>
   sysmon_snapshot_find snapshot None = None \<and>
   (\<forall>s n. snapshot = Some s \<and> name = Some n \<longrightarrow>
      (sysmon_snapshot_find snapshot name = None \<longleftrightarrow>
         (\<forall>i < s_count s. m_name (s_metrics s ! i) \<noteq> Some n)) \<and>
      ((\<exists>i < s_count s. m_name (s_metrics s ! i) = Some n) \<longrightarrow>
         (\<exists>i < s_count s. sysmon_snapshot_find snapshot name = Some (s_metrics s ! i) \<and>
            m_name (s_metrics s ! i) = Some n \<and>
            (\<forall>j < i. m_name (s_metrics s ! j) \<noteq> Some n))))"
proof -
  have c: "sysmon_snapshot_metric_count None = 0"
    by (simp add: sysmon_snapshot_metric_count_def)
  have a1: "sysmon_snapshot_metric_at snapshot index = None \<longleftrightarrow>
      (snapshot = None \<or> index \<ge> sysmon_snapshot_metric_count snapshot)"
    by (cases snapshot) (simp_all add: sysmon_snapshot_metric_at_def sysmon_snapshot_metric_count_def)
  have a2: "\<forall>s. snapshot = Some s \<and> index < s_count s \<longrightarrow>
      sysmon_snapshot_metric_at snapshot index = Some (s_metrics s ! index)"
    by (simp add: sysmon_snapshot_metric_at_def)
  have f1: "sysmon_snapshot_find None name = None"
    by (simp add: sysmon_snapshot_find_def)
  have f2: "sysmon_snapshot_find snapshot None = None"
    by (cases snapshot) (simp_all add: sysmon_snapshot_find_def)
  have f3: "\<forall>s n. snapshot = Some s \<and> name = Some n \<longrightarrow>
      (sysmon_snapshot_find snapshot name = None \<longleftrightarrow>
         (\<forall>i < s_count s. m_name (s_metrics s ! i) \<noteq> Some n)) \<and>
      ((\<exists>i < s_count s. m_name (s_metrics s ! i) = Some n) \<longrightarrow>
         (\<exists>i < s_count s. sysmon_snapshot_find snapshot name = Some (s_metrics s ! i) \<and>
            m_name (s_metrics s ! i) = Some n \<and>
            (\<forall>j < i. m_name (s_metrics s ! j) \<noteq> Some n)))"
    using find_loop_None find_loop_first
    by (simp add: sysmon_snapshot_find_def s_count_def)
  from c a1 a2 f1 f2 f3 show ?thesis by blast
qed

theorem snapshot_read_total_witness:
  "sysmon_snapshot_metric_at
     (Some \<lparr>s_metrics =
        [\<lparr>m_name = Some ''a'', m_unit = None, m_type = SYSMON_METRIC_UINT64, m_value = U64 1\<rparr>,
         \<lparr>m_name = Some ''b'', m_unit = None, m_type = SYSMON_METRIC_UINT64, m_value = U64 2\<rparr>,
         \<lparr>m_name = Some ''a'', m_unit = None, m_type = SYSMON_METRIC_UINT64, m_value = U64 3\<rparr>]\<rparr>) 2 =
     Some \<lparr>m_name = Some ''a'', m_unit = None, m_type = SYSMON_METRIC_UINT64, m_value = U64 3\<rparr> \<and>
   sysmon_snapshot_find
     (Some \<lparr>s_metrics =
        [\<lparr>m_name = Some ''a'', m_unit = None, m_type = SYSMON_METRIC_UINT64, m_value = U64 1\<rparr>,
         \<lparr>m_name = Some ''b'', m_unit = None, m_type = SYSMON_METRIC_UINT64, m_value = U64 2\<rparr>,
         \<lparr>m_name = Some ''a'', m_unit = None, m_type = SYSMON_METRIC_UINT64, m_value = U64 3\<rparr>]\<rparr>)
     (Some ''a'') =
     Some \<lparr>m_name = Some ''a'', m_unit = None, m_type = SYSMON_METRIC_UINT64, m_value = U64 1\<rparr>"
  using snapshot_read_total [of
     "Some \<lparr>s_metrics =
        [\<lparr>m_name = Some ''a'', m_unit = None, m_type = SYSMON_METRIC_UINT64, m_value = U64 1\<rparr>,
         \<lparr>m_name = Some ''b'', m_unit = None, m_type = SYSMON_METRIC_UINT64, m_value = U64 2\<rparr>,
         \<lparr>m_name = Some ''a'', m_unit = None, m_type = SYSMON_METRIC_UINT64, m_value = U64 3\<rparr>]\<rparr>"
     2 "Some ''a''"]
  by (simp add: s_count_def sysmon_snapshot_find_def)

subsection \<open>Building and reading back\<close>

text \<open>
  Claim C9.  Builder round trip: after a builder is created, metrics are added and the
  builder is finalized, all with success, the snapshot holds as many metrics as were
  added; reading by index gives the added names, units, type tags and values in insertion
  order; a lookup by exact name gives the first added metric of that name; and finalize
  leaves the builder with zero metrics.  On a heap without failures every step succeeds.
  The witness adds \<open>x.a\<close> as the double 1.5 with unit \<open>u\<close> and \<open>x.b\<close> as the unsigned 42.
\<close>

theorem builder_round_trip:
  assumes "sysmon_snapshot_builder_create h0 = (rc0, b0, h1)"
    and "apply_adds adds b0 h1 = (rc1, b1, h2)"
    and "sysmon_snapshot_builder_finalize b1 h2 = (rc2, b2, snap, h3)"
  shows "(heap_ok h0 \<longrightarrow> rc0 = SYSMON_OK \<and> rc1 = SYSMON_OK \<and> rc2 = SYSMON_OK) \<and>
         (rc0 = SYSMON_OK \<and> rc1 = SYSMON_OK \<and> rc2 = SYSMON_OK \<longrightarrow>
            sysmon_snapshot_metric_count snap = length adds \<and>
            (\<forall>i < length adds. sysmon_snapshot_metric_at snap i = Some (added_metric (adds ! i))) \<and>
            (\<forall>n. sysmon_snapshot_find snap (Some n) =
                 List.find (\<lambda>m. m_name m = Some n) (map added_metric adds)) \<and>
            (\<exists>b. b2 = Some b \<and> b_count b = 0 \<and> b_metrics b = []))"
proof (intro conjI impI)
  assume ok: "heap_ok h0"
  with assms(1) have 0: "rc0 = SYSMON_OK" "heap_ok h1" "\<exists>b. b0 = Some b"
    by (auto simp: sysmon_snapshot_builder_create_def split: prod.splits if_splits dest: alloc_heap_ok)
  then obtain b where b: "b0 = Some b" by blast
  from apply_adds_heap_ok [OF 0(2) assms(2) [unfolded b]]
  have 1: "rc1 = SYSMON_OK" "heap_ok h2" "b1 \<noteq> None" by auto
  with assms(3) have 2: "rc2 = SYSMON_OK"
    by (auto simp: sysmon_snapshot_builder_finalize_def split: prod.splits if_splits dest: alloc_heap_ok)
  from 0 1 2 show "rc0 = SYSMON_OK" "rc1 = SYSMON_OK" "rc2 = SYSMON_OK" by auto
next
  assume "rc0 = SYSMON_OK \<and> rc1 = SYSMON_OK \<and> rc2 = SYSMON_OK"
  then have rc: "rc0 = SYSMON_OK" "rc1 = SYSMON_OK" "rc2 = SYSMON_OK" by auto
  from assms(1) rc(1) have b0: "b0 = Some \<lparr>b_metrics = [], b_capacity = 0\<rparr>"
    by (auto simp: sysmon_snapshot_builder_create_def split: prod.splits if_splits)
  from apply_adds_ok [OF assms(2) [unfolded b0 rc(2)]] obtain bb where
    bb: "b1 = Some bb" "b_metrics bb = map added_metric adds" by auto
  from assms(3) rc(3) bb have snap: "snap = Some \<lparr>s_metrics = map added_metric adds\<rparr>"
    and b2: "b2 = Some \<lparr>b_metrics = [], b_capacity = 0\<rparr>"
    by (auto simp: sysmon_snapshot_builder_finalize_def split: prod.splits if_splits)
  show "sysmon_snapshot_metric_count snap = length adds"
    by (simp add: snap sysmon_snapshot_metric_count_def s_count_def)
  show "\<forall>i < length adds. sysmon_snapshot_metric_at snap i = Some (added_metric (adds ! i))"
    by (simp add: snap sysmon_snapshot_metric_at_def s_count_def)
  show "\<forall>n. sysmon_snapshot_find snap (Some n) =
         List.find (\<lambda>m. m_name m = Some n) (map added_metric adds)"
    by (simp add: snap sysmon_snapshot_find_def find_loop_find)
  show "\<exists>b. b2 = Some b \<and> b_count b = 0 \<and> b_metrics b = []"
    by (simp add: b2 b_count_def)
qed

theorem builder_round_trip_witness:
  "sysmon_snapshot_metric_count
     (Some \<lparr>s_metrics = map added_metric
        [Add_double ''x.a'' (Some ''u'') (3 / 2), Add_u64 ''x.b'' None 42]\<rparr>) = 2 \<and>
   sysmon_snapshot_metric_at
     (Some \<lparr>s_metrics = map added_metric
        [Add_double ''x.a'' (Some ''u'') (3 / 2), Add_u64 ''x.b'' None 42]\<rparr>) 0 =
     Some \<lparr>m_name = Some ''x.a'', m_unit = Some ''u'', m_type = SYSMON_METRIC_DOUBLE,
           m_value = F64 (3 / 2)\<rparr> \<and>
   sysmon_snapshot_metric_at
     (Some \<lparr>s_metrics = map added_metric
        [Add_double ''x.a'' (Some ''u'') (3 / 2), Add_u64 ''x.b'' None 42]\<rparr>) 1 =
     Some \<lparr>m_name = Some ''x.b'', m_unit = None, m_type = SYSMON_METRIC_UINT64,
           m_value = U64 42\<rparr> \<and>
   sysmon_snapshot_find
     (Some \<lparr>s_metrics = map added_metric
        [Add_double ''x.a'' (Some ''u'') (3 / 2), Add_u64 ''x.b'' None 42]\<rparr>) (Some ''x.b'') =
     Some \<lparr>m_name = Some ''x.b'', m_unit = None, m_type = SYSMON_METRIC_UINT64,
           m_value = U64 42\<rparr>"
proof -
  have c: "sysmon_snapshot_builder_create [] =
      (SYSMON_OK, Some \<lparr>b_metrics = [], b_capacity = 0\<rparr>, [])"
    by (simp add: sysmon_snapshot_builder_create_def alloc_def)
  have a: "apply_adds [Add_double ''x.a'' (Some ''u'') (3 / 2), Add_u64 ''x.b'' None 42]
      (Some \<lparr>b_metrics = [], b_capacity = 0\<rparr>) [] =
    (SYSMON_OK, Some \<lparr>b_metrics = map added_metric
        [Add_double ''x.a'' (Some ''u'') (3 / 2), Add_u64 ''x.b'' None 42],
      b_capacity = 32\<rparr>, [])"
    by (simp add: sysmon_snapshot_builder_add_double_def sysmon_snapshot_builder_add_u64_def
        add_common_def ensure_capacity_def sysmon_strdup_def alloc_def b_count_def
        set_last_value_def zero_value_def)
  have f: "sysmon_snapshot_builder_finalize (Some \<lparr>b_metrics = map added_metric
        [Add_double ''x.a'' (Some ''u'') (3 / 2), Add_u64 ''x.b'' None 42],
      b_capacity = 32\<rparr>) [] =
    (SYSMON_OK, Some \<lparr>b_metrics = [], b_capacity = 0\<rparr>,
     Some \<lparr>s_metrics = map added_metric
        [Add_double ''x.a'' (Some ''u'') (3 / 2), Add_u64 ''x.b'' None 42]\<rparr>, [])"
    by (simp add: sysmon_snapshot_builder_finalize_def alloc_def)
  from builder_round_trip [OF c a f] show ?thesis
    by (simp add: nth_Cons')
qed

subsection \<open>What a sequence of add calls leaves\<close>

lemma add_common_None: "add_common None n u t h = (SYSMON_ERR_INVALID_ARGUMENT, None, None, h)"
  by (simp add: add_common_def)

lemma apply_add_any:
  assumes "apply_add a (Some b) h = (rc, b', h')"
  shows "\<exists>b1. b' = Some b1 \<and>
           ((rc \<noteq> SYSMON_OK \<and> b_metrics b1 = b_metrics b) \<or>
            (\<exists>m. b_metrics b1 = b_metrics b @ [m] \<and> left_by a m \<and> (rc = SYSMON_OK \<longrightarrow> m = added_metric a)))"
proof (cases "rc = SYSMON_OK")
  case True
  with assms apply_add_ok show ?thesis unfolding left_by_def by blast
next
  case False
  show ?thesis
  proof (cases a)
    case (Add_double n u v)
    with assms False obtain e where "add_common (Some b) (Some n) u SYSMON_METRIC_DOUBLE h = (rc, b', e, h')"
      by (auto simp: sysmon_snapshot_builder_add_double_def split: prod.splits if_splits)
    from add_common_fail [OF this False] False show ?thesis by auto
  next
    case (Add_i64 n u v)
    with assms False obtain e where "add_common (Some b) (Some n) u SYSMON_METRIC_INT64 h = (rc, b', e, h')"
      by (auto simp: sysmon_snapshot_builder_add_i64_def split: prod.splits if_splits)
    from add_common_fail [OF this False] False show ?thesis by auto
  next
    case (Add_u64 n u v)
    with assms False obtain e where "add_common (Some b) (Some n) u SYSMON_METRIC_UINT64 h = (rc, b', e, h')"
      by (auto simp: sysmon_snapshot_builder_add_u64_def split: prod.splits if_splits)
    from add_common_fail [OF this False] False show ?thesis by auto
  next
    case (Add_string n u v)
    obtain rc1 bc e h1 where ac: "add_common (Some b) (Some n) u SYSMON_METRIC_STRING h = (rc1, bc, e, h1)"
      by (cases "add_common (Some b) (Some n) u SYSMON_METRIC_STRING h") auto
    show ?thesis
    proof (cases "rc1 = SYSMON_OK")
      case ok: True
      from add_common_ok [OF ac [unfolded ok]] obtain b1 where b1: "bc = Some b1"
        "b_metrics b1 = b_metrics b @ [\<lparr>m_name = Some n, m_unit = u, m_type = SYSMON_METRIC_STRING, m_value = zero_value SYSMON_METRIC_STRING\<rparr>]"
        by blast
      from assms Add_string ac ok False b1 have "b' = Some (set_last_value b1 (Str None))"
        by (auto simp: sysmon_snapshot_builder_add_string_def split: prod.splits if_splits)
      with b1 False Add_string show ?thesis
        by (auto simp: set_last_value_snoc left_by_def)
    next
      case nok: False
      with assms Add_string ac have "rc = rc1" "b' = bc"
        by (auto simp: sysmon_snapshot_builder_add_string_def split: prod.splits if_splits)
      with add_common_fail [OF ac nok] False show ?thesis by auto
    qed
  qed
qed

lemma apply_adds_any:
  "apply_adds adds (Some b) h = (rc, b', h') \<Longrightarrow>
   \<exists>b1 ms. b' = Some b1 \<and> b_metrics b1 = b_metrics b @ ms \<and> length ms \<le> length adds \<and>
      list_all2 left_by (take (length ms) adds) ms \<and>
      (rc = SYSMON_OK \<longrightarrow> ms = map added_metric adds)"
proof (induction adds arbitrary: b h)
  case Nil
  then show ?case by auto
next
  case (Cons a adds)
  obtain rc1 bm hm where 1: "apply_add a (Some b) h = (rc1, bm, hm)"
    by (cases "apply_add a (Some b) h") auto
  from apply_add_any [OF 1] obtain b1 where b1: "bm = Some b1"
    and alt: "(rc1 \<noteq> SYSMON_OK \<and> b_metrics b1 = b_metrics b) \<or>
            (\<exists>m. b_metrics b1 = b_metrics b @ [m] \<and> left_by a m \<and> (rc1 = SYSMON_OK \<longrightarrow> m = added_metric a))"
    by blast
  show ?case
  proof (cases "rc1 = SYSMON_OK")
    case True
    with alt have m: "b_metrics b1 = b_metrics b @ [added_metric a]" by auto
    from Cons.prems 1 True b1 have "apply_adds adds (Some b1) hm = (rc, b', h')" by simp
    from Cons.IH [OF this] obtain b2 ms where
      2: "b' = Some b2" "b_metrics b2 = b_metrics b1 @ ms" "length ms \<le> length adds"
         "list_all2 left_by (take (length ms) adds) ms" "rc = SYSMON_OK \<longrightarrow> ms = map added_metric adds"
      by blast
    have "list_all2 left_by (take (length (added_metric a # ms)) (a # adds)) (added_metric a # ms)"
      using 2(4) by (simp add: left_by_def)
    with 2 m show ?thesis
      by (intro exI [of _ b2] exI [of _ "added_metric a # ms"]) auto
  next
    case False
    with Cons.prems 1 have r: "rc = rc1" "b' = bm" by auto
    from alt show ?thesis
    proof
      assume "rc1 \<noteq> SYSMON_OK \<and> b_metrics b1 = b_metrics b"
      with r b1 show ?thesis by (intro exI [of _ b1] exI [of _ "[]"]) auto
    next
      assume "\<exists>m. b_metrics b1 = b_metrics b @ [m] \<and> left_by a m \<and> (rc1 = SYSMON_OK \<longrightarrow> m = added_metric a)"
      then obtain m where "b_metrics b1 = b_metrics b @ [m]" "left_by a m" by blast
      with r b1 False show ?thesis by (intro exI [of _ b1] exI [of _ "[m]"]) auto
    qed
  qed
qed

lemma emit_sel [simp]:
  "p_state (emit st adds b h) = Some st"
  "p_error (emit st adds b h) = None"
  "p_rc (emit st adds b h) = fst (apply_adds adds (Some b) h)"
  "p_builder (emit st adds b h) = fst (snd (apply_adds adds (Some b) h))"
  "p_heap (emit st adds b h) = snd (snd (apply_adds adds (Some b) h))"
  by (simp_all add: emit_def split: prod.splits)

lemma read_failed_sel [simp]:
  "p_state (read_failed rc st b err fb h) = Some st"
  "p_rc (read_failed rc st b err fb h) = rc"
  "p_builder (read_failed rc st b err fb h) = Some b"
  by (simp_all add: read_failed_def split: prod.splits)

lemma emit_builder:
  "\<exists>b1 ms. p_builder (emit st adds b h) = Some b1 \<and> b_metrics b1 = b_metrics b @ ms \<and>
      length ms \<le> length adds \<and> list_all2 left_by (take (length ms) adds) ms \<and>
      (p_rc (emit st adds b h) = SYSMON_OK \<longrightarrow> ms = map added_metric adds)"
proof -
  obtain rc b' h' where "apply_adds adds (Some b) h = (rc, b', h')"
    by (cases "apply_adds adds (Some b) h") auto
  from apply_adds_any [OF this] this show ?thesis by auto
qed

subsection \<open>Rounding to binary64\<close>

lemma scale_step:
  "0 < n \<Longrightarrow> scale n x e =
     (if x < 2 ^ 52 then scale (n - 1) (2 * x) (e - 1)
      else if 2 ^ 53 \<le> x then scale (n - 1) (x / 2) (e + 1)
      else (x, e))"
  by (cases n) simp_all

lemma scale_nonneg: "0 \<le> x \<Longrightarrow> 0 \<le> fst (scale n x e)"
  by (induction n arbitrary: x e) simp_all

lemma round_half_even_nonneg: "0 \<le> q \<Longrightarrow> 0 \<le> round_half_even q"
  by (simp add: round_half_even_def Let_def)

lemma round_double_nonneg: "0 \<le> x \<Longrightarrow> 0 \<le> round_double x"
proof (cases "x = 0")
  case True
  then show ?thesis by (simp add: round_double_def)
next
  case False
  assume x: "0 \<le> x"
  obtain q e where s: "scale 2200 \<bar>x\<bar> 0 = (q, e)" by (cases "scale 2200 \<bar>x\<bar> 0") auto
  from scale_nonneg [of "\<bar>x\<bar>" 2200 0] s have "0 \<le> q" by simp
  then have "0 \<le> round_half_even q" by (rule round_half_even_nonneg)
  then show ?thesis using x False s by (simp add: round_double_def sgn_if)
qed

lemma double_of_u64_nonneg: "0 \<le> double_of_u64 w"
  unfolding double_of_u64_def by (rule round_double_nonneg) (simp del: of_nat_unat)

lemma double_percent_nonneg:
  "0 \<le> double_div (double_mul (double_of_u64 a) 100) (double_of_u64 b)"
proof -
  have "0 \<le> double_mul (double_of_u64 a) 100"
    unfolding double_mul_def using double_of_u64_nonneg [of a] by (intro round_double_nonneg) simp
  then show ?thesis
    unfolding double_div_def using double_of_u64_nonneg [of b] by (intro round_double_nonneg) simp
qed

lemmas double_eval =
  double_of_u64_def double_mul_def double_div_def round_double_def scale_step
  round_half_even_def Let_def

lemma cpu_refresh_percent:
  assumes "0 \<le> last_usage_percent st"
  shows "0 \<le> last_usage_percent (cpu_refresh st t i)"
proof (cases "has_prev st \<and> t - last_total st > 0 \<and> i - last_idle st \<le> t - last_total st")
  case True
  then have "last_usage_percent (cpu_refresh st t i) =
      double_div (double_mul (double_of_u64 ((t - last_total st) - (i - last_idle st))) 100)
        (double_of_u64 (t - last_total st))"
    by (simp add: cpu_refresh_def Let_def)
  then show ?thesis by (simp add: double_percent_nonneg)
next
  case False
  then have "last_usage_percent (cpu_refresh st t i) = last_usage_percent st"
    by (auto simp: cpu_refresh_def Let_def)
  with assms show ?thesis by simp
qed

lemma cpu_refresh_computed:
  "has_prev st \<Longrightarrow> t - last_total st > 0 \<Longrightarrow> i - last_idle st \<le> t - last_total st \<Longrightarrow>
   last_usage_percent (cpu_refresh st t i) =
     double_div (double_mul (double_of_u64 ((t - last_total st) - (i - last_idle st))) 100)
       (double_of_u64 (t - last_total st))"
  by (simp add: cpu_refresh_def Let_def)

lemma cpu_refresh_kept:
  "\<not> has_prev st \<or> t - last_total st = 0 \<or> i - last_idle st > t - last_total st \<Longrightarrow>
   last_usage_percent (cpu_refresh st t i) = last_usage_percent st"
  by (auto simp: cpu_refresh_def Let_def)

lemma cpu_refresh_has_prev [simp]: "has_prev (cpu_refresh st t i)"
  by (auto simp: cpu_refresh_def Let_def)

lemma cpu_refresh_stores [simp]:
  "last_total (cpu_refresh st t i) = t" "last_idle (cpu_refresh st t i) = i"
  by (simp_all add: cpu_refresh_def Let_def)

lemma cpu_poll_state:
  "p_state (cpu_poll (Some st) now_ms refresh_now (Some b) os h) = Some st' \<Longrightarrow>
   st' = st \<or> (\<exists>t i. os_cpu_ticks os = Inr (t, i) \<and> (refresh_now \<or> \<not> has_prev st) \<and> st' = cpu_refresh st t i)"
  by (auto simp: cpu_poll_def Let_def split: if_splits sum.splits)

lemma cpu_poll_state_None:
  "p_state (cpu_poll (Some st) now_ms refresh_now None os h) = Some st' \<Longrightarrow> st' = st"
  by (auto simp: cpu_poll_def)

lemma cpu_inv_refresh: "cpu_inv st \<Longrightarrow> cpu_inv (cpu_refresh st t i)"
  using cpu_refresh_percent [of st t i] by (simp add: cpu_inv_def)

lemma cpu_reachable_inv: "cpu_reachable st \<Longrightarrow> cpu_inv st"
proof (induction rule: cpu_reachable.induct)
  case (cpu_created ini sect os h st)
  then show ?case
    by (auto simp: cpu_create_def cpu_inv_def split: prod.splits if_splits)
next
  case (cpu_polled st now_ms refresh_now builder os h st')
  show ?case
  proof (cases builder)
    case None
    with cpu_polled show ?thesis by (auto dest: cpu_poll_state_None)
  next
    case (Some b)
    with cpu_polled show ?thesis by (auto dest!: cpu_poll_state intro: cpu_inv_refresh)
  qed
qed

lemma list_all2_left_by_set:
  assumes "list_all2 left_by (take k adds) ms" "m \<in> set ms"
  shows "\<exists>a \<in> set adds. left_by a m"
proof -
  from assms(2) obtain j where j: "j < length ms" "ms ! j = m" by (auto simp: in_set_conv_nth)
  from assms(1) have len: "length (take k adds) = length ms" by (rule list_all2_lengthD)
  have "left_by (take k adds ! j) (ms ! j)"
    using assms(1) by (rule list_all2_nthD) (use len j(1) in simp)
  then have "left_by (take k adds ! j) m" by (simp add: j(2))
  moreover have "take k adds ! j \<in> set adds"
    using j(1) len by (metis in_set_takeD nth_mem)
  ultimately show ?thesis by blast
qed

lemma cpu_adds_left_by:
  assumes "a \<in> set (cpu_adds st)" "left_by a m" "m_name m = Some ''cpu.usage_percent''"
  shows "m_value m = F64 (last_usage_percent st)"
  using assms by (auto simp: cpu_adds_def left_by_def split: if_splits)

lemma cpu_emit_metrics:
  "\<exists>b' ms. p_builder (emit st (cpu_adds st) b h) = Some b' \<and> b_metrics b' = b_metrics b @ ms \<and>
     (\<forall>m \<in> set ms. m_name m = Some ''cpu.usage_percent'' \<longrightarrow> m_value m = F64 (last_usage_percent st)) \<and>
     (p_rc (emit st (cpu_adds st) b h) = SYSMON_OK \<longrightarrow> ms \<noteq> [] \<and>
        hd ms = \<lparr>m_name = Some ''cpu.usage_percent'', m_unit = Some ''%'',
                 m_type = SYSMON_METRIC_DOUBLE, m_value = F64 (last_usage_percent st)\<rparr>)"
proof -
  from emit_builder [of st "cpu_adds st" b h] obtain b1 ms where
    1: "p_builder (emit st (cpu_adds st) b h) = Some b1" "b_metrics b1 = b_metrics b @ ms"
       "list_all2 left_by (take (length ms) (cpu_adds st)) ms"
       "p_rc (emit st (cpu_adds st) b h) = SYSMON_OK \<longrightarrow> ms = map added_metric (cpu_adds st)"
    by blast
  have "\<forall>m \<in> set ms. m_name m = Some ''cpu.usage_percent'' \<longrightarrow> m_value m = F64 (last_usage_percent st)"
    using list_all2_left_by_set [OF 1(3)] cpu_adds_left_by by blast
  moreover have "p_rc (emit st (cpu_adds st) b h) = SYSMON_OK \<longrightarrow> ms \<noteq> [] \<and>
        hd ms = \<lparr>m_name = Some ''cpu.usage_percent'', m_unit = Some ''%'',
                 m_type = SYSMON_METRIC_DOUBLE, m_value = F64 (last_usage_percent st)\<rparr>"
    using 1(4) by (auto simp: cpu_adds_def)
  ultimately show ?thesis using 1(1,2) by blast
qed

subsection \<open>The cpu module\<close>

text \<open>
  What a poll of the cpu module leaves in every state the module can reach: the usage
  percentage is at least 0 and every \<open>cpu.usage_percent\<close> record appended carries it, a
  successful poll appends it first; a poll that does not refresh, or whose read fails,
  keeps the state; a refresh stores the counters read.  While no earlier sample exists
  the percentage is 0.  When the refresh sees a total delta of 0 or an idle delta above
  the total delta (both deltas wrap in 64 bits), the percentage reported before is kept;
  otherwise it is the binary64 value of
  \<^verbatim>\<open>(double)(total_delta - idle_delta) * 100.0 / (double)total_delta\<close>.
\<close>

lemma cpu_poll_usage:
  assumes "cpu_reachable st"
  shows "\<exists>st' b' ms.
     p_state (cpu_poll (Some st) now_ms refresh_now (Some b) os h) = Some st' \<and>
     p_builder (cpu_poll (Some st) now_ms refresh_now (Some b) os h) = Some b' \<and>
     cpu_reachable st' \<and>
     0 \<le> last_usage_percent st' \<and>
     b_metrics b' = b_metrics b @ ms \<and>
     (\<forall>m \<in> set ms. m_name m = Some ''cpu.usage_percent'' \<longrightarrow>
        m_value m = F64 (last_usage_percent st')) \<and>
     (p_rc (cpu_poll (Some st) now_ms refresh_now (Some b) os h) = SYSMON_OK \<longrightarrow>
        ms \<noteq> [] \<and>
        hd ms = \<lparr>m_name = Some ''cpu.usage_percent'', m_unit = Some ''%'',
                 m_type = SYSMON_METRIC_DOUBLE, m_value = F64 (last_usage_percent st')\<rparr>) \<and>
     (\<not> has_prev st \<longrightarrow> last_usage_percent st' = 0) \<and>
     (\<not> refresh_now \<and> has_prev st \<longrightarrow> st' = st) \<and>
     (\<forall>e. os_cpu_ticks os = Inl e \<longrightarrow> st' = st) \<and>
     (\<forall>t i. os_cpu_ticks os = Inr (t, i) \<and> (refresh_now \<or> \<not> has_prev st) \<longrightarrow>
        last_total st' = t \<and> last_idle st' = i \<and> has_prev st' \<and>
        (t - last_total st = 0 \<or> i - last_idle st > t - last_total st \<longrightarrow>
           last_usage_percent st' = last_usage_percent st) \<and>
        (has_prev st \<and> t - last_total st > 0 \<and> i - last_idle st \<le> t - last_total st \<longrightarrow>
           last_usage_percent st' =
             double_div
               (double_mul (double_of_u64 ((t - last_total st) - (i - last_idle st))) 100)
               (double_of_u64 (t - last_total st))))"
proof -
  let ?out = "cpu_poll (Some st) now_ms refresh_now (Some b) os h"
  from assms have inv: "cpu_inv st" by (rule cpu_reachable_inv)
  consider (cached) "\<not> refresh_now" "has_prev st" "?out = emit st (cpu_adds st) b h"
    | (failed) e where "os_cpu_ticks os = Inl e" "refresh_now \<or> \<not> has_prev st"
        "?out = read_failed SYSMON_ERR_NOT_SUPPORTED st b e ''failed to read cpu ticks'' h"
    | (fresh) t i where "os_cpu_ticks os = Inr (t, i)" "refresh_now \<or> \<not> has_prev st"
        "?out = emit (cpu_refresh st t i) (cpu_adds (cpu_refresh st t i)) b h"
    by (cases "os_cpu_ticks os") (auto simp: cpu_poll_def Let_def)
  then have key: "\<exists>st' b' ms. p_state ?out = Some st' \<and> p_builder ?out = Some b' \<and>
      (st' = st \<and> (\<not> refresh_now \<and> has_prev st \<or> (\<exists>e. os_cpu_ticks os = Inl e)) \<or>
       (\<exists>t i. os_cpu_ticks os = Inr (t, i) \<and> (refresh_now \<or> \<not> has_prev st) \<and>
          st' = cpu_refresh st t i)) \<and>
      b_metrics b' = b_metrics b @ ms \<and>
      (\<forall>m \<in> set ms. m_name m = Some ''cpu.usage_percent'' \<longrightarrow> m_value m = F64 (last_usage_percent st')) \<and>
      (p_rc ?out = SYSMON_OK \<longrightarrow> ms \<noteq> [] \<and>
        hd ms = \<lparr>m_name = Some ''cpu.usage_percent'', m_unit = Some ''%'',
                 m_type = SYSMON_METRIC_DOUBLE, m_value = F64 (last_usage_percent st')\<rparr>)"
  proof cases
    case cached
    from cpu_emit_metrics [of st b h] cached(1,2) show ?thesis unfolding cached(3) by auto
  next
    case failed
    show ?thesis unfolding failed(3) using failed(1)
      by (intro exI [of _ st] exI [of _ b] exI [of _ "[]"]) simp
  next
    case fresh
    from cpu_emit_metrics [of "cpu_refresh st t i" b h] fresh(1,2)
    show ?thesis unfolding fresh(3) by auto
  qed
  then obtain st' b' ms where k: "p_state ?out = Some st'" "p_builder ?out = Some b'"
      "st' = st \<and> (\<not> refresh_now \<and> has_prev st \<or> (\<exists>e. os_cpu_ticks os = Inl e)) \<or>
       (\<exists>t i. os_cpu_ticks os = Inr (t, i) \<and> (refresh_now \<or> \<not> has_prev st) \<and>
          st' = cpu_refresh st t i)"
      "b_metrics b' = b_metrics b @ ms"
      "\<forall>m \<in> set ms. m_name m = Some ''cpu.usage_percent'' \<longrightarrow> m_value m = F64 (last_usage_percent st')"
      "p_rc ?out = SYSMON_OK \<longrightarrow> ms \<noteq> [] \<and>
        hd ms = \<lparr>m_name = Some ''cpu.usage_percent'', m_unit = Some ''%'',
                 m_type = SYSMON_METRIC_DOUBLE, m_value = F64 (last_usage_percent st')\<rparr>"
    by blast
  have r: "cpu_reachable st'" using assms k(1) by (rule cpu_polled)
  then have inv': "cpu_inv st'" by (rule cpu_reachable_inv)
  have first: "\<not> has_prev st \<longrightarrow> last_usage_percent st' = 0"
    using k(3) inv by (auto simp: cpu_inv_def cpu_refresh_kept)
  have cached: "\<not> refresh_now \<and> has_prev st \<longrightarrow> st' = st" using k(3) by auto
  have failed: "\<forall>e. os_cpu_ticks os = Inl e \<longrightarrow> st' = st" using k(3) by auto
  have fresh: "\<forall>t i. os_cpu_ticks os = Inr (t, i) \<and> (refresh_now \<or> \<not> has_prev st) \<longrightarrow>
        last_total st' = t \<and> last_idle st' = i \<and> has_prev st' \<and>
        (t - last_total st = 0 \<or> i - last_idle st > t - last_total st \<longrightarrow>
           last_usage_percent st' = last_usage_percent st) \<and>
        (has_prev st \<and> t - last_total st > 0 \<and> i - last_idle st \<le> t - last_total st \<longrightarrow>
           last_usage_percent st' =
             double_div
               (double_mul (double_of_u64 ((t - last_total st) - (i - last_idle st))) 100)
               (double_of_u64 (t - last_total st)))"
  proof (intro allI impI)
    fix t i assume a: "os_cpu_ticks os = Inr (t, i) \<and> (refresh_now \<or> \<not> has_prev st)"
    with k(3) have st': "st' = cpu_refresh st t i" by auto
    show "last_total st' = t \<and> last_idle st' = i \<and> has_prev st' \<and>
        (t - last_total st = 0 \<or> i - last_idle st > t - last_total st \<longrightarrow>
           last_usage_percent st' = last_usage_percent st) \<and>
        (has_prev st \<and> t - last_total st > 0 \<and> i - last_idle st \<le> t - last_total st \<longrightarrow>
           last_usage_percent st' =
             double_div
               (double_mul (double_of_u64 ((t - last_total st) - (i - last_idle st))) 100)
               (double_of_u64 (t - last_total st)))"
      unfolding st' using cpu_refresh_kept [of st t i] cpu_refresh_computed [of st t i]
      by simp
  qed
  from k(1,2,4,5,6) r inv' first cached failed fresh show ?thesis
    unfolding cpu_inv_def by blast
qed

subsection \<open>The network module\<close>

lemma rate_ge_0: "0 \<le> real x / (real y / 1000)"
  by simp

lemma network_refresh_rates:
  "0 \<le> last_rx_rate (network_refresh st now_ms rx tx) \<and>
   0 \<le> last_tx_rate (network_refresh st now_ms rx tx)"
  by (simp add: network_refresh_def Let_def del: of_nat_unat)

lemma word_clamped_delta:
  "unat (if (a::64 word) \<ge> b then a - b else 0) = unat a - unat b"
  by (auto simp: unat_sub word_le_nat_alt)

lemma network_refresh_formula:
  assumes "net_has_data st" "0 < last_ts_ms st" "last_ts_ms st < now_ms"
  shows "last_rx_rate (network_refresh st now_ms rx tx) =
           real (unat rx - unat (last_rx_bytes st)) / (real (unat now_ms - unat (last_ts_ms st)) / 1000)"
    and "last_tx_rate (network_refresh st now_ms rx tx) =
           real (unat tx - unat (last_tx_bytes st)) / (real (unat now_ms - unat (last_ts_ms st)) / 1000)"
proof -
  have el: "unat (now_ms - last_ts_ms st) = unat now_ms - unat (last_ts_ms st)"
    using assms(3) by (simp add: unat_sub)
  have pos: "0 < unat now_ms - unat (last_ts_ms st)"
    using assms(3) unfolding word_less_nat_alt by arith
  have s: "real (unat (now_ms - last_ts_ms st)) / 1000 > 0"
    unfolding el using pos by (simp del: of_nat_unat)
  have rx: "last_rx_rate (network_refresh st now_ms rx tx) =
      real (unat (if rx \<ge> last_rx_bytes st then rx - last_rx_bytes st else 0)) /
        (real (unat (now_ms - last_ts_ms st)) / 1000)"
    using assms s by (simp add: network_refresh_def Let_def del: of_nat_unat)
  have tx: "last_tx_rate (network_refresh st now_ms rx tx) =
      real (unat (if tx \<ge> last_tx_bytes st then tx - last_tx_bytes st else 0)) /
        (real (unat (now_ms - last_ts_ms st)) / 1000)"
    using assms s by (simp add: network_refresh_def Let_def del: of_nat_unat)
  show "last_rx_rate (network_refresh st now_ms rx tx) =
           real (unat rx - unat (last_rx_bytes st)) / (real (unat now_ms - unat (last_ts_ms st)) / 1000)"
    unfolding rx word_clamped_delta el ..
  show "last_tx_rate (network_refresh st now_ms rx tx) =
           real (unat tx - unat (last_tx_bytes st)) / (real (unat now_ms - unat (last_ts_ms st)) / 1000)"
    unfolding tx word_clamped_delta el ..
qed

lemma network_refresh_zero:
  "\<not> (net_has_data st \<and> 0 < last_ts_ms st \<and> last_ts_ms st < now_ms) \<Longrightarrow>
   last_rx_rate (network_refresh st now_ms rx tx) = 0 \<and>
   last_tx_rate (network_refresh st now_ms rx tx) = 0"
  by (auto simp: network_refresh_def Let_def)

lemma network_refresh_decrease:
  "(rx < last_rx_bytes st \<longrightarrow> last_rx_rate (network_refresh st now_ms rx tx) = 0) \<and>
   (tx < last_tx_bytes st \<longrightarrow> last_tx_rate (network_refresh st now_ms rx tx) = 0)"
  by (auto simp: network_refresh_def Let_def)

lemma network_poll_cases:
  "network_poll (Some st) now_ms refresh_now (Some b) os h = emit st (network_adds st) b h \<and>
     \<not> (refresh_now \<or> \<not> net_has_data st) \<or>
   (\<exists>e. os_interface_bytes os (Some (ifname st)) (include_loopback st) = Inl e \<and>
      network_poll (Some st) now_ms refresh_now (Some b) os h =
        read_failed SYSMON_ERR_IO st b e ''failed to read network counters'' h) \<or>
   (\<exists>rx tx sel. os_interface_bytes os (Some (ifname st)) (include_loopback st) = Inr (rx, tx, sel) \<and>
      (refresh_now \<or> \<not> net_has_data st) \<and>
      network_poll (Some st) now_ms refresh_now (Some b) os h =
        emit (network_refresh st now_ms rx tx) (network_adds (network_refresh st now_ms rx tx)) b h)"
  by (auto simp: network_poll_def Let_def split: sum.splits)

lemma network_poll_state:
  assumes that: "p_state (network_poll (Some st) now_ms refresh_now builder os h) = Some st'"
  shows "st' = st \<or> (\<exists>rx tx. st' = network_refresh st now_ms rx tx)"
proof (cases builder)
  case None
  with that show ?thesis by (auto simp: network_poll_def)
next
  case (Some b)
  from network_poll_cases [of st now_ms refresh_now b os h] show ?thesis
    using that unfolding Some by (elim disjE exE conjE) auto
qed

lemma network_reachable_inv: "network_reachable st \<Longrightarrow> net_inv st"
proof (induction rule: network_reachable.induct)
  case (network_created ini sect os h st)
  then show ?case
    by (auto simp: network_create_def net_inv_def Let_def split: prod.splits if_splits sum.splits)
next
  case (network_polled st now_ms refresh_now builder os h st')
  from network_poll_state [OF network_polled(2)] network_polled(3) show ?case
    using network_refresh_rates by (auto simp: net_inv_def)
qed

lemma network_adds_left_by:
  assumes "a \<in> set (network_adds st)" "left_by a m"
  shows "(m_name m = Some ''network.rx_bytes_per_sec'' \<longrightarrow> m_value m = F64 (last_rx_rate st)) \<and>
         (m_name m = Some ''network.tx_bytes_per_sec'' \<longrightarrow> m_value m = F64 (last_tx_rate st))"
  using assms by (auto simp: network_adds_def left_by_def)

lemma network_emit_metrics:
  "\<exists>b' ms. p_builder (emit st (network_adds st) b h) = Some b' \<and> b_metrics b' = b_metrics b @ ms \<and>
     (\<forall>m \<in> set ms.
        (m_name m = Some ''network.rx_bytes_per_sec'' \<longrightarrow> m_value m = F64 (last_rx_rate st)) \<and>
        (m_name m = Some ''network.tx_bytes_per_sec'' \<longrightarrow> m_value m = F64 (last_tx_rate st))) \<and>
     (p_rc (emit st (network_adds st) b h) = SYSMON_OK \<longrightarrow> ms = map added_metric (network_adds st))"
proof -
  from emit_builder [of st "network_adds st" b h] obtain b1 ms where
    1: "p_builder (emit st (network_adds st) b h) = Some b1" "b_metrics b1 = b_metrics b @ ms"
       "list_all2 left_by (take (length ms) (network_adds st)) ms"
       "p_rc (emit st (network_adds st) b h) = SYSMON_OK \<longrightarrow> ms = map added_metric (network_adds st)"
    by blast
  have "\<forall>m \<in> set ms.
        (m_name m = Some ''network.rx_bytes_per_sec'' \<longrightarrow> m_value m = F64 (last_rx_rate st)) \<and>
        (m_name m = Some ''network.tx_bytes_per_sec'' \<longrightarrow> m_value m = F64 (last_tx_rate st))"
    using list_all2_left_by_set [OF 1(3)] network_adds_left_by by blast
  with 1 show ?thesis by blast
qed

lemma network_refresh_stores:
  "last_rx_bytes (network_refresh st now_ms rx tx) = rx \<and>
   last_tx_bytes (network_refresh st now_ms rx tx) = tx \<and>
   last_ts_ms (network_refresh st now_ms rx tx) = now_ms \<and>
   net_has_data (network_refresh st now_ms rx tx) \<and>
   ifname (network_refresh st now_ms rx tx) = ifname st \<and>
   include_loopback (network_refresh st now_ms rx tx) = include_loopback st"
  by (simp add: network_refresh_def Let_def)

text \<open>
  Claim C7, as amended.  In every state the network module can reach, both rates are at
  least 0 and the rate records appended carry them.  A refresh stores the counters read
  and the time given to \<open>poll\<close>, which are the previous sample of the next refresh; a
  poll that does not refresh, or whose read fails, keeps the state.  A refresh whose
  previous sample has a timestamp that is not 0 and lies strictly before \<open>now\<close> computes
  each rate as the byte delta divided by the seconds between the two timestamps given to
  \<open>poll\<close> (not the configured interval); a counter that decreased gives the delta 0,
  hence the rate 0.  Every other refresh (the first one, one whose previous timestamp is
  0, one that is not later than the previous one) reports both rates as 0.
\<close>

theorem network_rates:
  assumes "network_reachable st"
  shows "\<exists>st' b' ms.
     p_state (network_poll (Some st) now_ms refresh_now (Some b) os h) = Some st' \<and>
     p_builder (network_poll (Some st) now_ms refresh_now (Some b) os h) = Some b' \<and>
     network_reachable st' \<and>
     0 \<le> last_rx_rate st' \<and> 0 \<le> last_tx_rate st' \<and>
     ifname st' = ifname st \<and> include_loopback st' = include_loopback st \<and>
     b_metrics b' = b_metrics b @ ms \<and>
     (\<forall>m \<in> set ms.
        (m_name m = Some ''network.rx_bytes_per_sec'' \<longrightarrow> m_value m = F64 (last_rx_rate st')) \<and>
        (m_name m = Some ''network.tx_bytes_per_sec'' \<longrightarrow> m_value m = F64 (last_tx_rate st'))) \<and>
     (p_rc (network_poll (Some st) now_ms refresh_now (Some b) os h) = SYSMON_OK \<longrightarrow>
        ms = map added_metric (network_adds st')) \<and>
     (\<not> refresh_now \<and> net_has_data st \<longrightarrow> st' = st) \<and>
     (\<forall>e. os_interface_bytes os (Some (ifname st)) (include_loopback st) = Inl e \<and>
        (refresh_now \<or> \<not> net_has_data st) \<longrightarrow>
        st' = st \<and> ms = [] \<and>
        p_rc (network_poll (Some st) now_ms refresh_now (Some b) os h) = SYSMON_ERR_IO) \<and>
     (\<forall>rx tx sel.
        os_interface_bytes os (Some (ifname st)) (include_loopback st) = Inr (rx, tx, sel) \<and>
        (refresh_now \<or> \<not> net_has_data st) \<longrightarrow>
        last_rx_bytes st' = rx \<and> last_tx_bytes st' = tx \<and> last_ts_ms st' = now_ms \<and>
        net_has_data st' \<and>
        (net_has_data st \<and> 0 < last_ts_ms st \<and> last_ts_ms st < now_ms \<longrightarrow>
           last_rx_rate st' =
             real (unat rx - unat (last_rx_bytes st)) /
               (real (unat now_ms - unat (last_ts_ms st)) / 1000) \<and>
           last_tx_rate st' =
             real (unat tx - unat (last_tx_bytes st)) /
               (real (unat now_ms - unat (last_ts_ms st)) / 1000)) \<and>
        (\<not> (net_has_data st \<and> 0 < last_ts_ms st \<and> last_ts_ms st < now_ms) \<longrightarrow>
           last_rx_rate st' = 0 \<and> last_tx_rate st' = 0) \<and>
        (rx < last_rx_bytes st \<longrightarrow> last_rx_rate st' = 0) \<and>
        (tx < last_tx_bytes st \<longrightarrow> last_tx_rate st' = 0))"
proof -
  let ?out = "network_poll (Some st) now_ms refresh_now (Some b) os h"
  let ?rd = "os_interface_bytes os (Some (ifname st)) (include_loopback st)"
  have key: "\<exists>st' b' ms. p_state ?out = Some st' \<and> p_builder ?out = Some b' \<and>
      b_metrics b' = b_metrics b @ ms \<and>
      (\<forall>m \<in> set ms.
        (m_name m = Some ''network.rx_bytes_per_sec'' \<longrightarrow> m_value m = F64 (last_rx_rate st')) \<and>
        (m_name m = Some ''network.tx_bytes_per_sec'' \<longrightarrow> m_value m = F64 (last_tx_rate st'))) \<and>
      (p_rc ?out = SYSMON_OK \<longrightarrow> ms = map added_metric (network_adds st')) \<and>
      (\<not> refresh_now \<and> net_has_data st \<longrightarrow> st' = st) \<and>
      (\<forall>e. ?rd = Inl e \<and> (refresh_now \<or> \<not> net_has_data st) \<longrightarrow>
         st' = st \<and> ms = [] \<and> p_rc ?out = SYSMON_ERR_IO) \<and>
      (\<forall>rx tx sel. ?rd = Inr (rx, tx, sel) \<and> (refresh_now \<or> \<not> net_has_data st) \<longrightarrow>
         st' = network_refresh st now_ms rx tx)"
  proof -
    consider
        (cached) "?out = emit st (network_adds st) b h" "\<not> (refresh_now \<or> \<not> net_has_data st)"
      | (failed) e where "?rd = Inl e" "refresh_now \<or> \<not> net_has_data st"
          "?out = read_failed SYSMON_ERR_IO st b e ''failed to read network counters'' h"
      | (fresh) rx tx sel where "?rd = Inr (rx, tx, sel)" "refresh_now \<or> \<not> net_has_data st"
          "?out = emit (network_refresh st now_ms rx tx)
                 (network_adds (network_refresh st now_ms rx tx)) b h"
      by (cases ?rd) (auto simp: network_poll_def Let_def)
    then show ?thesis
    proof cases
      case cached
      from network_emit_metrics [of st b h] cached(2) show ?thesis unfolding cached(1) by auto
    next
      case failed
      show ?thesis unfolding failed(3) using failed(1,2)
        by (intro exI [of _ st] exI [of _ b] exI [of _ "[]"]) simp
    next
      case fresh
      from network_emit_metrics [of "network_refresh st now_ms rx tx" b h] fresh(1,2)
      show ?thesis unfolding fresh(3) by auto
    qed
  qed
  then obtain st' b' ms where k: "p_state ?out = Some st'" "p_builder ?out = Some b'"
      "b_metrics b' = b_metrics b @ ms"
      "\<forall>m \<in> set ms.
        (m_name m = Some ''network.rx_bytes_per_sec'' \<longrightarrow> m_value m = F64 (last_rx_rate st')) \<and>
        (m_name m = Some ''network.tx_bytes_per_sec'' \<longrightarrow> m_value m = F64 (last_tx_rate st'))"
      "p_rc ?out = SYSMON_OK \<longrightarrow> ms = map added_metric (network_adds st')"
      "\<not> refresh_now \<and> net_has_data st \<longrightarrow> st' = st"
      "\<forall>e. ?rd = Inl e \<and> (refresh_now \<or> \<not> net_has_data st) \<longrightarrow>
         st' = st \<and> ms = [] \<and> p_rc ?out = SYSMON_ERR_IO"
      "\<forall>rx tx sel. ?rd = Inr (rx, tx, sel) \<and> (refresh_now \<or> \<not> net_has_data st) \<longrightarrow>
         st' = network_refresh st now_ms rx tx"
    by blast
  have r: "network_reachable st'" using assms k(1) by (rule network_polled)
  then have inv: "0 \<le> last_rx_rate st'" "0 \<le> last_tx_rate st'"
    using network_reachable_inv by (auto simp: net_inv_def)
  have same: "ifname st' = ifname st \<and> include_loopback st' = include_loopback st"
    using network_poll_state [OF k(1)] network_refresh_stores by auto
  have f: "\<forall>rx tx sel. ?rd = Inr (rx, tx, sel) \<and> (refresh_now \<or> \<not> net_has_data st) \<longrightarrow>
        last_rx_bytes st' = rx \<and> last_tx_bytes st' = tx \<and> last_ts_ms st' = now_ms \<and>
        net_has_data st' \<and>
        (net_has_data st \<and> 0 < last_ts_ms st \<and> last_ts_ms st < now_ms \<longrightarrow>
           last_rx_rate st' =
             real (unat rx - unat (last_rx_bytes st)) /
               (real (unat now_ms - unat (last_ts_ms st)) / 1000) \<and>
           last_tx_rate st' =
             real (unat tx - unat (last_tx_bytes st)) /
               (real (unat now_ms - unat (last_ts_ms st)) / 1000)) \<and>
        (\<not> (net_has_data st \<and> 0 < last_ts_ms st \<and> last_ts_ms st < now_ms) \<longrightarrow>
           last_rx_rate st' = 0 \<and> last_tx_rate st' = 0) \<and>
        (rx < last_rx_bytes st \<longrightarrow> last_rx_rate st' = 0) \<and>
        (tx < last_tx_bytes st \<longrightarrow> last_tx_rate st' = 0)"
  proof (intro allI impI)
    fix rx tx sel
    assume "?rd = Inr (rx, tx, sel) \<and> (refresh_now \<or> \<not> net_has_data st)"
    with k(8) have st': "st' = network_refresh st now_ms rx tx" by blast
    show "last_rx_bytes st' = rx \<and> last_tx_bytes st' = tx \<and> last_ts_ms st' = now_ms \<and>
        net_has_data st' \<and>
        (net_has_data st \<and> 0 < last_ts_ms st \<and> last_ts_ms st < now_ms \<longrightarrow>
           last_rx_rate st' =
             real (unat rx - unat (last_rx_bytes st)) /
               (real (unat now_ms - unat (last_ts_ms st)) / 1000) \<and>
           last_tx_rate st' =
             real (unat tx - unat (last_tx_bytes st)) /
               (real (unat now_ms - unat (last_ts_ms st)) / 1000)) \<and>
        (\<not> (net_has_data st \<and> 0 < last_ts_ms st \<and> last_ts_ms st < now_ms) \<longrightarrow>
           last_rx_rate st' = 0 \<and> last_tx_rate st' = 0) \<and>
        (rx < last_rx_bytes st \<longrightarrow> last_rx_rate st' = 0) \<and>
        (tx < last_tx_bytes st \<longrightarrow> last_tx_rate st' = 0)"
      unfolding st'
      using network_refresh_formula [of st now_ms rx tx] network_refresh_zero [of st now_ms rx tx]
        network_refresh_decrease [of rx st now_ms tx] network_refresh_stores [of st now_ms rx tx]
      by blast
  qed
  from k(1-7) r inv same f show ?thesis by blast
qed

lemma net_state_at_zero_reachable: "network_reachable net_state_at_zero"
proof -
  let ?os = "os_sample\<lparr>os_interface_bytes := (\<lambda>r l. Inr (100, 200, ''eth0''))\<rparr>"
  let ?st0 = "\<lparr>ifname = ''eth0'', include_loopback = False, last_rx_bytes = 0, last_tx_bytes = 0,
      last_ts_ms = 0, last_rx_rate = 0, last_tx_rate = 0, net_has_data = False\<rparr>"
  have "c_state (network_create None ''module.network'' ?os []) = Some ?st0"
    by (simp add: network_create_def alloc_def sysmon_ini_get_bool_def sysmon_ini_get_def
        parse_bool_def copy_ifname_def os_sample_def)
  then have "network_reachable ?st0" by (rule network_created)
  moreover have "p_state (network_poll (Some ?st0) 0 True (Some empty_builder) ?os []) =
      Some net_state_at_zero"
    by (simp add: network_poll_def network_refresh_def net_state_at_zero_def os_sample_def Let_def)
  ultimately show ?thesis by (rule network_polled)
qed

text \<open>
  Claim C7 as stated fails: a state reached by a first poll at time 0 has a prior sample
  (100 bytes received); a refresh at time 1000 ms that reads 1100 bytes reports the rate
  0, where the byte delta over the elapsed second is 1000.
\<close>

theorem network_rate_counterexample:
  "network_reachable net_state_at_zero \<and> net_has_data net_state_at_zero \<and>
   os_interface_bytes os_sample (Some (ifname net_state_at_zero))
     (include_loopback net_state_at_zero) = Inr (1100, 2200, ''eth0'') \<and>
   last_rx_rate (the (p_state (network_poll (Some net_state_at_zero) 1000 True
      (Some empty_builder) os_sample []))) = 0 \<and>
   real (unat (1100 :: 64 word) - unat (last_rx_bytes net_state_at_zero)) /
     (real (unat (1000 :: 64 word) - unat (last_ts_ms net_state_at_zero)) / 1000) = 1000"
proof -
  have "last_rx_rate (the (p_state (network_poll (Some net_state_at_zero) 1000 True
      (Some empty_builder) os_sample []))) = 0"
    by (simp add: network_poll_def network_refresh_def net_state_at_zero_def os_sample_def Let_def)
  moreover have "real (unat (1100 :: 64 word) - unat (last_rx_bytes net_state_at_zero)) /
     (real (unat (1000 :: 64 word) - unat (last_ts_ms net_state_at_zero)) / 1000) = 1000"
    by (simp add: net_state_at_zero_def)
  ultimately show ?thesis
    using net_state_at_zero_reachable by (simp add: net_state_at_zero_def os_sample_def)
qed

lemma storage_refresh_used:
  "unat (sto_last_used_bytes (storage_refresh st t f a)) = unat t - unat f"
  by (simp add: storage_refresh_def Let_def word_clamped_delta)

lemma storage_refresh_percent:
  "sto_last_used_percent (storage_refresh st t f a) =
     (if t = 0 then 0
      else 100 * real (unat (sto_last_used_bytes (storage_refresh st t f a))) / real (unat t))"
  by (simp add: storage_refresh_def Let_def word_greater_zero_iff del: of_nat_unat)

lemma storage_refresh_sel [simp]:
  "sto_last_total_bytes (storage_refresh st t f a) = t"
  "sto_last_free_bytes (storage_refresh st t f a) = f"
  "sto_last_avail_bytes (storage_refresh st t f a) = a"
  "path (storage_refresh st t f a) = path st"
  "sto_has_data (storage_refresh st t f a)"
  by (simp_all add: storage_refresh_def Let_def)

lemma emit_ok_metrics:
  "p_rc (emit st adds b h) = SYSMON_OK \<Longrightarrow>
   \<exists>b'. p_builder (emit st adds b h) = Some b' \<and> b_metrics b' = b_metrics b @ map added_metric adds"
  using emit_builder [of st adds b h] by auto

subsection \<open>The storage module\<close>

text \<open>
  Claim C8.  A storage refresh stores the total, free and available bytes it read; the
  used bytes are total minus free, 0 when free exceeds total (so computed from free, not
  from available); the used percentage is 100 times used over total, and 0 when the total
  is 0; a successful poll appends these values.  When the section has no \<open>path\<close> key the
  module probes, and keeps, the path \<open>/\<close>.
\<close>

theorem storage_used_bytes:
  "(\<forall>t f a. os_storage_stats os (path st) = Inr (t, f, a) \<and> (refresh_now \<or> \<not> sto_has_data st) \<longrightarrow>
      (\<exists>st'. p_state (storage_poll (Some st) now_ms refresh_now (Some b) os h) = Some st' \<and>
         sto_last_total_bytes st' = t \<and> sto_last_free_bytes st' = f \<and>
         sto_last_avail_bytes st' = a \<and>
         unat (sto_last_used_bytes st') = unat t - unat f \<and>
         sto_last_used_percent st' =
           (if t = 0 then 0 else 100 * real (unat (sto_last_used_bytes st')) / real (unat t)) \<and>
         (p_rc (storage_poll (Some st) now_ms refresh_now (Some b) os h) = SYSMON_OK \<longrightarrow>
            (\<exists>b'. p_builder (storage_poll (Some st) now_ms refresh_now (Some b) os h) = Some b' \<and>
               b_metrics b' = b_metrics b @
                 [\<lparr>m_name = Some ''storage.path'', m_unit = None, m_type = SYSMON_METRIC_STRING,
                   m_value = Str (Some (path st))\<rparr>,
                  \<lparr>m_name = Some ''storage.total_bytes'', m_unit = Some ''B'',
                   m_type = SYSMON_METRIC_UINT64, m_value = U64 t\<rparr>,
                  \<lparr>m_name = Some ''storage.used_bytes'', m_unit = Some ''B'',
                   m_type = SYSMON_METRIC_UINT64, m_value = U64 (sto_last_used_bytes st')\<rparr>,
                  \<lparr>m_name = Some ''storage.free_bytes'', m_unit = Some ''B'',
                   m_type = SYSMON_METRIC_UINT64, m_value = U64 f\<rparr>,
                  \<lparr>m_name = Some ''storage.available_bytes'', m_unit = Some ''B'',
                   m_type = SYSMON_METRIC_UINT64, m_value = U64 a\<rparr>,
                  \<lparr>m_name = Some ''storage.used_percent'', m_unit = Some ''%'',
                   m_type = SYSMON_METRIC_DOUBLE, m_value = F64 (sto_last_used_percent st')\<rparr>])))) \<and>
   (sysmon_ini_get ini (Some sect) (Some ''path'') = None \<longrightarrow>
      (\<forall>st0. c_state (storage_create ini sect os h) = Some st0 \<longrightarrow> path st0 = ''/'') \<and>
      (fst (alloc h) \<longrightarrow>
         c_rc (storage_create ini sect os h) =
           (case os_storage_stats os ''/'' of
              Inl e \<Rightarrow> SYSMON_ERR_NOT_SUPPORTED | Inr s \<Rightarrow> SYSMON_OK)))"
proof (intro conjI allI impI)
  fix t f a
  assume "os_storage_stats os (path st) = Inr (t, f, a) \<and> (refresh_now \<or> \<not> sto_has_data st)"
  then have out: "storage_poll (Some st) now_ms refresh_now (Some b) os h =
      emit (storage_refresh st t f a) (storage_adds (storage_refresh st t f a)) b h"
    by (auto simp: storage_poll_def Let_def)
  let ?st = "storage_refresh st t f a"
  have ok: "p_rc (emit ?st (storage_adds ?st) b h) = SYSMON_OK \<longrightarrow>
      (\<exists>b'. p_builder (emit ?st (storage_adds ?st) b h) = Some b' \<and>
         b_metrics b' = b_metrics b @ map added_metric (storage_adds ?st))"
    using emit_ok_metrics [of ?st "storage_adds ?st" b h] by blast
  show "\<exists>st'. p_state (storage_poll (Some st) now_ms refresh_now (Some b) os h) = Some st' \<and>
         sto_last_total_bytes st' = t \<and> sto_last_free_bytes st' = f \<and>
         sto_last_avail_bytes st' = a \<and>
         unat (sto_last_used_bytes st') = unat t - unat f \<and>
         sto_last_used_percent st' =
           (if t = 0 then 0 else 100 * real (unat (sto_last_used_bytes st')) / real (unat t)) \<and>
         (p_rc (storage_poll (Some st) now_ms refresh_now (Some b) os h) = SYSMON_OK \<longrightarrow>
            (\<exists>b'. p_builder (storage_poll (Some st) now_ms refresh_now (Some b) os h) = Some b' \<and>
               b_metrics b' = b_metrics b @
                 [\<lparr>m_name = Some ''storage.path'', m_unit = None, m_type = SYSMON_METRIC_STRING,
                   m_value = Str (Some (path st))\<rparr>,
                  \<lparr>m_name = Some ''storage.total_bytes'', m_unit = Some ''B'',
                   m_type = SYSMON_METRIC_UINT64, m_value = U64 t\<rparr>,
                  \<lparr>m_name = Some ''storage.used_bytes'', m_unit = Some ''B'',
                   m_type = SYSMON_METRIC_UINT64, m_value = U64 (sto_last_used_bytes st')\<rparr>,
                  \<lparr>m_name = Some ''storage.free_bytes'', m_unit = Some ''B'',
                   m_type = SYSMON_METRIC_UINT64, m_value = U64 f\<rparr>,
                  \<lparr>m_name = Some ''storage.available_bytes'', m_unit = Some ''B'',
                   m_type = SYSMON_METRIC_UINT64, m_value = U64 a\<rparr>,
                  \<lparr>m_name = Some ''storage.used_percent'', m_unit = Some ''%'',
                   m_type = SYSMON_METRIC_DOUBLE, m_value = F64 (sto_last_used_percent st')\<rparr>]))"
    unfolding out
    using ok storage_refresh_used [of st t f a] storage_refresh_percent [of st t f a]
    by (intro exI [of _ ?st]) (simp add: storage_adds_def del: of_nat_unat)
next
  fix st0
  assume "sysmon_ini_get ini (Some sect) (Some ''path'') = None"
    and "c_state (storage_create ini sect os h) = Some st0"
  then show "path st0 = ''/''"
    by (auto simp: storage_create_def Let_def copy_path_def split: prod.splits if_splits sum.splits)
next
  assume "sysmon_ini_get ini (Some sect) (Some ''path'') = None" and "fst (alloc h)"
  then show "c_rc (storage_create ini sect os h) =
           (case os_storage_stats os ''/'' of
              Inl e \<Rightarrow> SYSMON_ERR_NOT_SUPPORTED | Inr s \<Rightarrow> SYSMON_OK)"
    by (auto simp: storage_create_def Let_def copy_path_def split: prod.splits if_splits sum.splits)
qed

lemma cpu_state_seeded_reachable: "cpu_reachable cpu_state_seeded"
proof -
  let ?st0 = "\<lparr>last_total = 0, last_idle = 0, last_usage_percent = 0, core_count = 4,
      has_prev = False\<rparr>"
  have "c_state (cpu_create None ''module.cpu'' os_sample []) = Some ?st0"
    by (simp add: cpu_create_def alloc_def os_sample_def)
  then have "cpu_reachable ?st0" by (rule cpu_created)
  moreover have "p_state (cpu_poll (Some ?st0) 0 True (Some empty_builder) os_sample []) =
      Some cpu_state_seeded"
    by (simp add: cpu_poll_def cpu_refresh_def cpu_state_seeded_def os_sample_def Let_def)
  ultimately show ?thesis by (rule cpu_polled)
qed

lemma cpu_poll_usage_example:
  "cpu_reachable cpu_state_seeded \<and>
   last_usage_percent (the (p_state (cpu_poll (Some cpu_state_seeded) 1000 True
      (Some empty_builder) os_sample_later []))) = 50"
proof -
  have v: "last_usage_percent (cpu_refresh cpu_state_seeded 3000 1800) = 50"
    by (simp add: cpu_refresh_def cpu_state_seeded_def double_eval)
  have i: "os_cpu_ticks os_sample_later = Inr (3000, 1800)"
    by (simp add: os_sample_later_def os_sample_def)
  from cpu_poll_usage [OF cpu_state_seeded_reachable, of 1000 True empty_builder
      os_sample_later "[]"] i v
  show ?thesis
    using cpu_state_seeded_reachable by (auto simp: cpu_poll_def Let_def)
qed

lemma cpu_state_before_drop_reachable: "cpu_reachable cpu_state_before_drop"
proof -
  let ?st0 = "\<lparr>last_total = 0, last_idle = 0, last_usage_percent = 0, core_count = 4,
      has_prev = False\<rparr>"
  have "c_state (cpu_create None ''module.cpu'' os_before_drop []) = Some ?st0"
    by (simp add: cpu_create_def alloc_def os_before_drop_def os_sample_def)
  then have "cpu_reachable ?st0" by (rule cpu_created)
  moreover have "p_state (cpu_poll (Some ?st0) 1000 True (Some empty_builder) os_before_drop []) =
      Some cpu_state_before_drop"
    by (simp add: cpu_poll_def cpu_refresh_def cpu_state_before_drop_def os_before_drop_def
        os_sample_def Let_def)
  ultimately show ?thesis by (rule cpu_polled)
qed

lemma double_percent_after_drop:
  "double_div (double_mul (double_of_u64 (8256 - 40000)) 100) (double_of_u64 (8256 - 40000)) =
     100 + 1 / 2 ^ 46"
proof -
  have w: "unat (8256 - 40000 :: 64 word) = 18446744073709519872" by simp
  have a: "double_of_u64 (8256 - 40000) = 18446744073709518848"
    unfolding double_of_u64_def w
    by (simp add: round_double_def scale_step round_half_even_def Let_def)
  have m: "double_mul 18446744073709518848 100 = 1844674407370952015872"
    by (simp add: double_mul_def round_double_def scale_step round_half_even_def Let_def)
  have d: "double_div 1844674407370952015872 18446744073709518848 = 100 + 1 / 2 ^ 46"
    by (simp add: double_div_def round_double_def scale_step round_half_even_def Let_def)
  show ?thesis unfolding a m d ..
qed

text \<open>
  Claim C6 fails at the upper bound.  The cpu module has a sample with the total counter
  at 40000 and the idle counter at 500.  The next refresh reads 8256 and 500: the total
  counter dropped by 31744 and the idle counter did not move.  The total delta wraps to
  \<open>2^64 - 31744\<close>, the idle delta is 0, the guard of \<^verbatim>\<open>cpu_poll\<close> passes, and the
  percentage computed and appended to the snapshot is \<open>100 + 2^-46\<close>
  (100.00000000000001), above 100.
\<close>

theorem cpu_usage_percent_above_100:
  "cpu_reachable cpu_state_before_drop \<and>
   os_cpu_ticks os_after_drop = Inr (8256, 500) \<and>
   last_usage_percent (the (p_state (cpu_poll (Some cpu_state_before_drop) 2000 True
      (Some empty_builder) os_after_drop []))) = 100 + 1 / 2 ^ 46 \<and>
   100 < last_usage_percent (the (p_state (cpu_poll (Some cpu_state_before_drop) 2000 True
      (Some empty_builder) os_after_drop []))) \<and>
   p_rc (cpu_poll (Some cpu_state_before_drop) 2000 True (Some empty_builder)
      os_after_drop []) = SYSMON_OK \<and>
   hd (b_metrics (the (p_builder (cpu_poll (Some cpu_state_before_drop) 2000 True
      (Some empty_builder) os_after_drop [])))) =
     \<lparr>m_name = Some ''cpu.usage_percent'', m_unit = Some ''%'',
      m_type = SYSMON_METRIC_DOUBLE, m_value = F64 (100 + 1 / 2 ^ 46)\<rparr>"
proof -
  let ?st = "cpu_refresh cpu_state_before_drop 8256 500"
  have i: "os_cpu_ticks os_after_drop = Inr (8256, 500)"
    by (simp add: os_after_drop_def os_sample_def)
  have g: "(0 :: 64 word) < 8256 - 40000" by (simp add: word_less_nat_alt)
  have v: "last_usage_percent ?st = 100 + 1 / 2 ^ 46"
    using double_percent_after_drop g
    by (simp add: cpu_refresh_def cpu_state_before_drop_def Let_def)
  have c: "core_count ?st = 4" by (simp add: cpu_refresh_def cpu_state_before_drop_def Let_def)
  have p: "cpu_poll (Some cpu_state_before_drop) 2000 True (Some empty_builder) os_after_drop [] =
      emit ?st (cpu_adds ?st) empty_builder []"
    by (simp add: cpu_poll_def i Let_def)
  have adds: "cpu_adds ?st =
      [Add_double ''cpu.usage_percent'' (Some ''%'') (100 + 1 / 2 ^ 46),
       Add_u64 ''cpu.core_count'' None 4]"
    by (simp add: cpu_adds_def v c)
  have e: "apply_adds (cpu_adds ?st) (Some empty_builder) [] =
      (SYSMON_OK,
       Some \<lparr>b_metrics =
          [\<lparr>m_name = Some ''cpu.usage_percent'', m_unit = Some ''%'',
            m_type = SYSMON_METRIC_DOUBLE, m_value = F64 (100 + 1 / 2 ^ 46)\<rparr>,
           \<lparr>m_name = Some ''cpu.core_count'', m_unit = None,
            m_type = SYSMON_METRIC_UINT64, m_value = U64 4\<rparr>],
          b_capacity = 32\<rparr>, [])"
    unfolding adds
    by (simp add: empty_builder_def sysmon_snapshot_builder_add_double_def
        sysmon_snapshot_builder_add_u64_def add_common_def ensure_capacity_def
        sysmon_strdup_def alloc_def b_count_def set_last_value_def zero_value_def Let_def)
  have gt: "(100 :: real) < 100 + 1 / 2 ^ 46" by simp
  show ?thesis
    using cpu_state_before_drop_reachable i gt
    by (simp add: p e v del: power_numeral)
qed

lemma net_state_sampled_reachable: "network_reachable net_state_sampled"
proof -
  have "p_state (network_poll (Some net_state_at_zero) 1000 True (Some empty_builder) os_sample []) =
      Some net_state_sampled"
    by (simp add: network_poll_def network_refresh_def net_state_at_zero_def
        net_state_sampled_def os_sample_def Let_def)
  with net_state_at_zero_reachable show ?thesis by (rule network_polled)
qed

theorem network_rates_witness:
  "network_reachable net_state_sampled \<and>
   last_rx_rate (the (p_state (network_poll (Some net_state_sampled) 3000 True
      (Some empty_builder) os_sample_later []))) = 2000 \<and>
   last_tx_rate (the (p_state (network_poll (Some net_state_sampled) 3000 True
      (Some empty_builder) os_sample_later []))) = 0 \<and>
   last_rx_bytes (the (p_state (network_poll (Some net_state_sampled) 3000 True
      (Some empty_builder) os_sample_later []))) = 5100 \<and>
   last_tx_bytes (the (p_state (network_poll (Some net_state_sampled) 3000 True
      (Some empty_builder) os_sample_later []))) = 2000 \<and>
   last_ts_ms (the (p_state (network_poll (Some net_state_sampled) 3000 True
      (Some empty_builder) os_sample_later []))) = 3000 \<and>
   the (p_state (network_poll (Some net_state_sampled) 4000 False
      (Some empty_builder) os_sample_later [])) = net_state_sampled"
proof -
  have i: "os_interface_bytes os_sample_later (Some (ifname net_state_sampled))
      (include_loopback net_state_sampled) = Inr (5100, 2000, ''eth0'')"
    by (simp add: os_sample_later_def os_sample_def)
  have c: "net_has_data net_state_sampled \<and> 0 < last_ts_ms net_state_sampled \<and>
      last_ts_ms net_state_sampled < 3000"
    by (simp add: net_state_sampled_def)
  from network_rates [OF net_state_sampled_reachable, of 3000 True empty_builder
      os_sample_later "[]"] i c
  have fresh: "last_rx_rate (the (p_state (network_poll (Some net_state_sampled) 3000 True
      (Some empty_builder) os_sample_later []))) = 2000 \<and>
   last_tx_rate (the (p_state (network_poll (Some net_state_sampled) 3000 True
      (Some empty_builder) os_sample_later []))) = 0 \<and>
   last_rx_bytes (the (p_state (network_poll (Some net_state_sampled) 3000 True
      (Some empty_builder) os_sample_later []))) = 5100 \<and>
   last_tx_bytes (the (p_state (network_poll (Some net_state_sampled) 3000 True
      (Some empty_builder) os_sample_later []))) = 2000 \<and>
   last_ts_ms (the (p_state (network_poll (Some net_state_sampled) 3000 True
      (Some empty_builder) os_sample_later []))) = 3000"
    by (auto simp: net_state_sampled_def)
  from network_rates [OF net_state_sampled_reachable, of 4000 False empty_builder
      os_sample_later "[]"] c
  have cached: "the (p_state (network_poll (Some net_state_sampled) 4000 False
      (Some empty_builder) os_sample_later [])) = net_state_sampled"
    by auto
  from fresh cached net_state_sampled_reachable show ?thesis by simp
qed

theorem storage_used_bytes_witness:
  "sto_last_used_bytes (the (p_state (storage_poll (Some storage_state_fresh) 0 False
      (Some empty_builder) os_sample []))) = 600 \<and>
   sto_last_used_percent (the (p_state (storage_poll (Some storage_state_fresh) 0 False
      (Some empty_builder) os_sample []))) = 60 \<and>
   c_rc (storage_create None ''module.storage'' os_sample []) = SYSMON_OK \<and>
   path (the (c_state (storage_create None ''module.storage'' os_sample []))) = ''/''"
proof -
  have s: "os_storage_stats os_sample (path storage_state_fresh) = Inr (1000, 400, 300) \<and>
      (False \<or> \<not> sto_has_data storage_state_fresh)"
    by (simp add: os_sample_def storage_state_fresh_def)
  have g: "sysmon_ini_get None (Some ''module.storage'') (Some ''path'') = None"
    by (simp add: sysmon_ini_get_def)
  have a: "fst (alloc [])" by (simp add: alloc_def)
  have o: "os_storage_stats os_sample ''/'' = Inr (1000, 400, 300)"
    by (simp add: os_sample_def)
  have c: "\<exists>st0. c_state (storage_create None ''module.storage'' os_sample []) = Some st0"
    by (simp add: storage_create_def alloc_def sysmon_ini_get_def copy_path_def os_sample_def)
  have u: "sto_last_used_bytes (the (p_state (storage_poll (Some storage_state_fresh) 0 False
      (Some empty_builder) os_sample []))) = 600"
    by (simp add: storage_poll_def storage_refresh_def storage_state_fresh_def os_sample_def Let_def)
  from storage_used_bytes [of os_sample storage_state_fresh False 0 empty_builder "[]"
      None "''module.storage''"] s g a o c u
  show ?thesis by auto
qed

subsection \<open>The poll loop\<close>

lemma poll_loop_length:
  "length (l_modules (poll_loop ms now_ms b os h)) = length ms \<and>
   length (l_calls (poll_loop ms now_ms b os h)) = length ms"
proof (induction ms arbitrary: b h)
  case Nil
  show ?case by simp
next
  case (Cons m ms)
  show ?case
    by (simp add: Let_def Cons.IH split: prod.splits)
qed

lemma poll_loop_head:
  "\<exists>m' c. l_modules (poll_loop (m # ms) now_ms b os h) =
            m' # tl (l_modules (poll_loop (m # ms) now_ms b os h)) \<and>
     l_calls (poll_loop (m # ms) now_ms b os h) =
            c # tl (l_calls (poll_loop (m # ms) now_ms b os h)) \<and>
     module_step now_ms m m' c \<and> (\<not> enabled m \<longrightarrow> c = None) \<and>
     ((\<exists>b' h'. tl (l_modules (poll_loop (m # ms) now_ms b os h)) =
                  l_modules (poll_loop ms now_ms b' os h') \<and>
               tl (l_calls (poll_loop (m # ms) now_ms b os h)) =
                  l_calls (poll_loop ms now_ms b' os h')) \<or>
      (tl (l_modules (poll_loop (m # ms) now_ms b os h)) = ms \<and>
       tl (l_calls (poll_loop (m # ms) now_ms b os h)) = map (\<lambda>i. None) ms))"
  by (auto simp: Let_def module_step_def split: prod.splits)

lemma list_all2_unpolled:
  "list_all2 (\<lambda>m (m', c). module_step now_ms m m' c \<and> (\<not> enabled m \<longrightarrow> c = None))
      ms (zip ms (map (\<lambda>i. None) ms))"
  by (induction ms) (simp_all add: module_step_def)

lemma poll_loop_steps:
  "list_all2 (\<lambda>m (m', c). module_step now_ms m m' c \<and> (\<not> enabled m \<longrightarrow> c = None))
     ms (zip (l_modules (poll_loop ms now_ms b os h)) (l_calls (poll_loop ms now_ms b os h)))"
proof (induction ms arbitrary: b h)
  case Nil
  show ?case by simp
next
  case (Cons m ms)
  let ?r = "poll_loop (m # ms) now_ms b os h"
  from poll_loop_head [of m ms now_ms b os h] obtain m' c where
    hd: "l_modules ?r = m' # tl (l_modules ?r)" "l_calls ?r = c # tl (l_calls ?r)"
      "module_step now_ms m m' c" "\<not> enabled m \<longrightarrow> c = None"
    and tl: "(\<exists>b' h'. tl (l_modules ?r) = l_modules (poll_loop ms now_ms b' os h') \<and>
               tl (l_calls ?r) = l_calls (poll_loop ms now_ms b' os h')) \<or>
      (tl (l_modules ?r) = ms \<and> tl (l_calls ?r) = map (\<lambda>i. None) ms)"
    by blast
  have rest: "list_all2 (\<lambda>m (m', c). module_step now_ms m m' c \<and> (\<not> enabled m \<longrightarrow> c = None))
      ms (zip (tl (l_modules ?r)) (tl (l_calls ?r)))"
    using tl Cons.IH list_all2_unpolled [of now_ms ms] by (elim disjE exE conjE) simp_all
  have "zip (l_modules ?r) (l_calls ?r) = (m', c) # zip (tl (l_modules ?r)) (tl (l_calls ?r))"
    by (subst hd(1), subst hd(2)) simp
  with rest hd(3,4) show ?case by simp
qed

lemma poll_loop_nth:
  assumes "i < length ms"
  shows "module_step now_ms (ms ! i) (l_modules (poll_loop ms now_ms b os h) ! i)
           (l_calls (poll_loop ms now_ms b os h) ! i) \<and>
         (\<not> enabled (ms ! i) \<longrightarrow> l_calls (poll_loop ms now_ms b os h) ! i = None)"
proof -
  have "(\<lambda>m (m', c). module_step now_ms m m' c \<and> (\<not> enabled m \<longrightarrow> c = None)) (ms ! i)
      (zip (l_modules (poll_loop ms now_ms b os h)) (l_calls (poll_loop ms now_ms b os h)) ! i)"
    using poll_loop_steps [of now_ms ms b os h] assms by (rule list_all2_nthD)
  then show ?thesis
    using assms poll_loop_length [of ms now_ms b os h] by simp
qed

lemma poll_loop_called:
  "\<not> l_aborted (poll_loop ms now_ms b os h) \<Longrightarrow> i < length ms \<Longrightarrow>
   enabled (ms ! i) \<Longrightarrow> vtable (ms ! i) \<noteq> None \<Longrightarrow> vt_poll (the (vtable (ms ! i))) \<noteq> None \<Longrightarrow>
   l_calls (poll_loop ms now_ms b os h) ! i \<noteq> None"
proof (induction ms arbitrary: b h i)
  case Nil
  then show ?case by simp
next
  case (Cons m ms)
  show ?case
  proof (cases i)
    case 0
    with Cons.prems show ?thesis by (auto simp: Let_def split: prod.splits)
  next
    case (Suc k)
    with Cons.prems have k: "k < length ms" "enabled (ms ! k)" "vtable (ms ! k) \<noteq> None"
      "vt_poll (the (vtable (ms ! k))) \<noteq> None" by auto
    from Cons.prems(1) Cons.IH [OF _ k] Suc show ?thesis
      by (auto simp: Let_def split: prod.splits if_splits)
  qed
qed

lemma refresh_due_nat:
  assumes "refresh_ms m \<noteq> 0" "last_refresh_ms m \<noteq> 0" "last_refresh_ms m \<le> now_ms"
  shows "refresh_due m now_ms \<longleftrightarrow> unat (refresh_ms m) \<le> unat now_ms - unat (last_refresh_ms m)"
proof -
  have "unat (now_ms - last_refresh_ms m) = unat now_ms - unat (last_refresh_ms m)"
    using assms(3) by (simp add: unat_sub)
  moreover have "unat (ucast (refresh_ms m) :: 64 word) = unat (refresh_ms m)"
  proof -
    have "unat (refresh_ms m) < 2 ^ 32" using unsigned_less [of "refresh_ms m"] by simp
    then have "unat (refresh_ms m) < 2 ^ 64" by simp
    then show ?thesis by (simp add: unsigned_ucast_eq take_bit_nat_eq_self)
  qed
  ultimately show ?thesis
    using assms(1,2) by (simp add: refresh_due_def word_le_nat_alt)
qed

lemma sysmon_poll_sel:
  fixes s :: "'s sysmon"
  shows "fst (alloc h) \<Longrightarrow>
     r_calls (sysmon_poll (Some s) True clk os h) =
       l_calls (poll_loop (sm_modules s) (fst (sysmon_now_ms clk))
          (Some \<lparr>b_metrics = [], b_capacity = 0\<rparr>) os (snd (alloc h))) \<and>
     (\<exists>s'. r_sysmon (sysmon_poll (Some s) True clk os h) = Some s' \<and>
        sm_modules s' = l_modules (poll_loop (sm_modules s) (fst (sysmon_now_ms clk))
          (Some \<lparr>b_metrics = [], b_capacity = 0\<rparr>) os (snd (alloc h))) \<and>
        sm_ini s' = sm_ini s \<and> sm_config s' = sm_config s) \<and>
     reads (r_clock (sysmon_poll (Some s) True clk os h)) = Suc (reads clk)"
  and "\<not> fst (alloc h) \<Longrightarrow>
     r_calls (sysmon_poll (Some s) True clk os h) = map (\<lambda>i. None) (sm_modules s) \<and>
     r_sysmon (sysmon_poll (Some s) True clk os h) = Some s \<and>
     r_clock (sysmon_poll (Some s) True clk os h) = clk \<and>
     r_rc (sysmon_poll (Some s) True clk os h) = SYSMON_ERR_OUT_OF_MEMORY \<and>
     r_snapshot (sysmon_poll (Some s) True clk os h) = None"
  by (auto simp: sysmon_poll_def sysmon_snapshot_builder_create_def sysmon_now_ms_def Let_def
      split: prod.splits)

lemma lift_poll_sel [simp]:
  "p_rc (lift_poll w out) = p_rc out"
  "p_state (lift_poll w out) = map_option w (p_state out)"
  "p_builder (lift_poll w out) = p_builder out"
  "p_error (lift_poll w out) = p_error out"
  "p_heap (lift_poll w out) = p_heap out"
  by (simp_all add: lift_poll_def)

lemma module_poll_simps:
  "module_poll (Cpu_state c) now_ms rd b os h = lift_poll Cpu_state (cpu_poll (Some c) now_ms rd b os h)"
  "module_poll (Ram_state r) now_ms rd b os h = lift_poll Ram_state (ram_poll (Some r) now_ms rd b os h)"
  "module_poll (Battery_state y) now_ms rd b os h =
     lift_poll Battery_state (battery_poll (Some y) now_ms rd b os h)"
  "module_poll (Network_state n) now_ms rd b os h =
     lift_poll Network_state (network_poll (Some n) now_ms rd b os h)"
  "module_poll (Storage_state g) now_ms rd b os h =
     lift_poll Storage_state (storage_poll (Some g) now_ms rd b os h)"
  by (simp_all add: module_poll_def sysmon_cpu_module_def sysmon_ram_module_def
      sysmon_battery_module_def sysmon_network_module_def sysmon_storage_module_def
      as_cpu_def as_ram_def as_battery_def as_network_def as_storage_def)

lemma cpu_poll_cached:
  "has_prev c \<Longrightarrow> cpu_poll (Some c) now_ms False (Some b) os h = emit c (cpu_adds c) b h"
  by (simp add: cpu_poll_def)

lemma ram_poll_cached:
  "ram_has_data c \<Longrightarrow> ram_poll (Some c) now_ms False (Some b) os h = emit c (ram_adds c) b h"
  by (simp add: ram_poll_def)

lemma battery_poll_cached:
  "bat_has_data c \<Longrightarrow> battery_poll (Some c) now_ms False (Some b) os h = emit c (battery_adds c) b h"
  by (simp add: battery_poll_def)

lemma network_poll_cached:
  "net_has_data c \<Longrightarrow> network_poll (Some c) now_ms False (Some b) os h = emit c (network_adds c) b h"
  by (simp add: network_poll_def)

lemma storage_poll_cached:
  "sto_has_data c \<Longrightarrow> storage_poll (Some c) now_ms False (Some b) os h = emit c (storage_adds c) b h"
  by (simp add: storage_poll_def)

lemma module_poll_cached:
  assumes "has_sample st"
  shows "module_poll st now_ms False (Some b) os h = module_poll st now_ms' False (Some b) os' h \<and>
         p_state (module_poll st now_ms False (Some b) os h) = Some st"
  using assms
  by (cases st)
     (simp_all add: module_poll_simps cpu_poll_cached ram_poll_cached battery_poll_cached
        network_poll_cached storage_poll_cached)

lemma cpu_refresh_other [simp]: "core_count (cpu_refresh st t i) = core_count st"
  by (simp add: cpu_refresh_def Let_def)

lemma module_poll_state:
  "\<exists>st'. p_state (module_poll st now_ms rd b os h) = Some st' \<and> module_of st' = module_of st \<and>
      (has_sample st \<longrightarrow> has_sample st') \<and>
      (rd \<and> p_rc (module_poll st now_ms rd b os h) = SYSMON_OK \<longrightarrow> has_sample st')"
proof (cases b)
  case None
  then show ?thesis
    by (cases st)
       (simp_all add: module_poll_simps cpu_poll_def ram_poll_def battery_poll_def
          network_poll_def storage_poll_def)
next
  case (Some bb)
  show ?thesis
  proof (cases st)
    case (Cpu_state c)
    then show ?thesis unfolding Some
      by (auto simp: module_poll_simps cpu_poll_def Let_def split: sum.splits)
  next
    case (Ram_state c)
    then show ?thesis unfolding Some
      by (auto simp: module_poll_simps ram_poll_def ram_refresh_def Let_def split: sum.splits)
  next
    case (Battery_state c)
    then show ?thesis unfolding Some
      by (auto simp: module_poll_simps battery_poll_def battery_refresh_def Let_def
          split: sum.splits option.splits)
  next
    case (Network_state c)
    then show ?thesis unfolding Some
      by (auto simp: module_poll_simps network_poll_def network_refresh_def Let_def split: sum.splits)
  next
    case (Storage_state c)
    then show ?thesis unfolding Some
      by (auto simp: module_poll_simps storage_poll_def storage_refresh_def Let_def split: sum.splits)
  qed
qed

lemma vt_poll_module_of [simp]: "vt_poll (module_of st) \<noteq> None"
  by (cases st)
     (simp_all add: sysmon_cpu_module_def sysmon_ram_module_def sysmon_battery_module_def
        sysmon_network_module_def sysmon_storage_module_def)

lemma instance_inv_step:
  assumes "instance_inv ini m" "enabled m"
  shows "\<exists>st. mod_state m = Some st \<and> vtable m = Some (module_of st) \<and>
     the (vt_poll (the (vtable m))) (mod_state m) = module_poll st"
  using assms by (auto simp: instance_inv_def module_poll_def)

lemma instance_inv_polled:
  assumes inv: "instance_inv ini m" and en: "enabled m"
    and out: "out = the (vt_poll (the (vtable m))) (mod_state m) now_ms rd b os h"
  shows "instance_inv ini (m\<lparr>mod_state := p_state out\<rparr>)"
    and "rd \<Longrightarrow> p_rc out = SYSMON_OK \<Longrightarrow>
         instance_inv ini (m\<lparr>mod_state := p_state out, last_refresh_ms := t\<rparr>)"
proof -
  from inv en obtain st where st: "mod_state m = Some st" "vtable m = Some (module_of st)"
    "last_refresh_ms m \<noteq> 0 \<longrightarrow> has_sample st"
    and cfg: "sysmon_ini_get_bool ini (Some (take 127 (''module.'' @ vt_name (the (vtable m)))))
          (Some ''enabled'') True"
    by (auto simp: instance_inv_def)
  have o: "out = module_poll st now_ms rd b os h"
    using out st by (simp add: module_poll_def)
  from module_poll_state [of st now_ms rd b os h] obtain st' where
    st': "p_state out = Some st'" "module_of st' = module_of st"
      "has_sample st \<longrightarrow> has_sample st'"
      "rd \<and> p_rc out = SYSMON_OK \<longrightarrow> has_sample st'"
    unfolding o by blast
  show "instance_inv ini (m\<lparr>mod_state := p_state out\<rparr>)"
    using st st' cfg by (simp add: instance_inv_def)
  show "rd \<Longrightarrow> p_rc out = SYSMON_OK \<Longrightarrow>
         instance_inv ini (m\<lparr>mod_state := p_state out, last_refresh_ms := t\<rparr>)"
    using st st' cfg by (simp add: instance_inv_def)
qed

lemma poll_loop_inv:
  "list_all (instance_inv ini) ms \<Longrightarrow>
   list_all (instance_inv ini) (l_modules (poll_loop ms now_ms b os h))"
proof (induction ms arbitrary: b h)
  case Nil
  then show ?case by simp
next
  case (Cons m ms)
  then have m: "instance_inv ini m" and ms: "list_all (instance_inv ini) ms" by simp_all
  note IH = Cons.IH [OF ms]
  show ?case
  proof (cases "\<not> enabled m \<or> vtable m = None \<or> vt_poll (the (vtable m)) = None")
    case True
    then show ?thesis using m IH by (simp add: Let_def)
  next
    case False
    then have en: "enabled m" by simp
    note p = instance_inv_polled [where now_ms = now_ms and rd = "refresh_due m now_ms"
        and b = b and os = os and h = h, OF m en refl]
    show ?thesis
      using False IH ms p(1) p(2) [where t = now_ms]
      by (auto simp: Let_def split: prod.splits)
  qed
qed

lemma poll_loop_vtables:
  "map vtable (l_modules (poll_loop ms now_ms b os h)) = map vtable ms"
proof (rule nth_equalityI)
  show "length (map vtable (l_modules (poll_loop ms now_ms b os h))) = length (map vtable ms)"
    using poll_loop_length [of ms now_ms b os h] by simp
next
  fix i assume "i < length (map vtable (l_modules (poll_loop ms now_ms b os h)))"
  then have i: "i < length ms" using poll_loop_length [of ms now_ms b os h] by simp
  from poll_loop_nth [OF i, of now_ms b os h]
  have "vtable (l_modules (poll_loop ms now_ms b os h) ! i) = vtable (ms ! i)"
    by (simp add: module_step_def)
  then show "map vtable (l_modules (poll_loop ms now_ms b os h)) ! i = map vtable ms ! i"
    using i poll_loop_length [of ms now_ms b os h] by simp
qed

lemma sysmon_poll_engine:
  assumes "r_sysmon (sysmon_poll (Some s) out_snapshot clk os h) = Some s'"
  shows "s' = s \<or> (\<exists>now_ms b h' le.
     s' = s\<lparr>sm_modules := l_modules (poll_loop (sm_modules s) now_ms b os h')\<rparr> \<or>
     s' = s\<lparr>sm_modules := l_modules (poll_loop (sm_modules s) now_ms b os h'),
            sm_last_error := le\<rparr>)"
  using assms
  by (auto simp: sysmon_poll_def Let_def split: prod.splits if_splits)

lemma engine_inv_polled:
  assumes "engine_inv s" "r_sysmon (sysmon_poll (Some s) out_snapshot clk os h) = Some s'"
  shows "engine_inv s'"
  using sysmon_poll_engine [OF assms(2)] assms(1)
  by (auto simp: engine_inv_def poll_loop_vtables poll_loop_inv)

subsection \<open>Engine construction\<close>

lemma init_loop_Cons_cases:
  fixes vt :: "'s sysmon_module_vtable" and vts ini os le h
  defines "out \<equiv> init_loop (vt # vts) ini os le h"
  defines "inst \<equiv> \<lparr>vtable = Some vt, mod_state = None, enabled = cfg_enabled ini vt,
      refresh_ms = fst (cfg_refresh ini vt), last_refresh_ms = 0\<rparr>"
  defines "c \<equiv> vt_create vt ini (mod_section vt) os h"
  obtains
    (parse) "\<not> snd (cfg_refresh ini vt)" "i_rc out = SYSMON_ERR_PARSE"
      "i_modules out = inst # replicate (length vts) zero_instance"
      "i_creates out = Parse_failed # replicate (length vts) Not_reached"
  | (disabled) "snd (cfg_refresh ini vt)" "\<not> cfg_enabled ini vt"
      "i_rc out = i_rc (init_loop vts ini os le h)"
      "i_modules out = inst # i_modules (init_loop vts ini os le h)"
      "i_creates out = Disabled # i_creates (init_loop vts ini os le h)"
      "i_heap out = i_heap (init_loop vts ini os le h)"
  | (unsupported) "snd (cfg_refresh ini vt)" "cfg_enabled ini vt"
      "c_rc c = SYSMON_ERR_NOT_SUPPORTED"
      "i_rc out = i_rc (init_loop vts ini os le (c_heap c))"
      "i_modules out = inst\<lparr>mod_state := c_state c, enabled := False\<rparr> #
         i_modules (init_loop vts ini os le (c_heap c))"
      "i_creates out = Created (c_rc c) # i_creates (init_loop vts ini os le (c_heap c))"
      "i_heap out = i_heap (init_loop vts ini os le (c_heap c))"
  | (failed) "snd (cfg_refresh ini vt)" "cfg_enabled ini vt"
      "c_rc c \<noteq> SYSMON_ERR_NOT_SUPPORTED" "c_rc c \<noteq> SYSMON_OK"
      "i_rc out = c_rc c"
      "i_modules out = inst\<lparr>mod_state := c_state c\<rparr> # replicate (length vts) zero_instance"
      "i_creates out = Created (c_rc c) # replicate (length vts) Not_reached"
  | (created) "snd (cfg_refresh ini vt)" "cfg_enabled ini vt"
      "c_rc c = SYSMON_OK"
      "i_rc out = i_rc (init_loop vts ini os le (c_heap c))"
      "i_modules out = inst\<lparr>mod_state := c_state c\<rparr> #
         i_modules (init_loop vts ini os le (c_heap c))"
      "i_creates out = Created (c_rc c) # i_creates (init_loop vts ini os le (c_heap c))"
      "i_heap out = i_heap (init_loop vts ini os le (c_heap c))"
proof -
  consider (a) "\<not> snd (cfg_refresh ini vt)"
    | (b) "snd (cfg_refresh ini vt)" "\<not> cfg_enabled ini vt"
    | (c) "snd (cfg_refresh ini vt)" "cfg_enabled ini vt" "c_rc c = SYSMON_ERR_NOT_SUPPORTED"
    | (d) "snd (cfg_refresh ini vt)" "cfg_enabled ini vt" "c_rc c \<noteq> SYSMON_ERR_NOT_SUPPORTED"
        "c_rc c \<noteq> SYSMON_OK"
    | (e) "snd (cfg_refresh ini vt)" "cfg_enabled ini vt" "c_rc c = SYSMON_OK"
    by blast
  then show ?thesis
  proof cases
    case a
    then show ?thesis
      by (intro parse)
         (auto simp: out_def inst_def cfg_refresh_def cfg_enabled_def mod_section_def Let_def
            split: prod.splits)
  next
    case b
    then show ?thesis
      by (intro disabled)
         (auto simp: out_def inst_def cfg_refresh_def cfg_enabled_def mod_section_def Let_def
            split: prod.splits)
  next
    case c
    then show ?thesis
      by (intro unsupported)
         (auto simp: out_def inst_def c_def cfg_refresh_def cfg_enabled_def mod_section_def Let_def
            split: prod.splits)
  next
    case d
    then show ?thesis
      by (intro failed)
         (auto simp: out_def inst_def c_def cfg_refresh_def cfg_enabled_def mod_section_def Let_def
            split: prod.splits)
  next
    case e
    then show ?thesis
      by (intro created)
         (auto simp: out_def inst_def c_def cfg_refresh_def cfg_enabled_def mod_section_def Let_def
            split: prod.splits)
  qed
qed

declare init_loop.simps(2) [simp del]

lemma init_loop_length:
  "length (i_modules (init_loop vts ini os le h)) = length vts \<and>
   length (i_creates (init_loop vts ini os le h)) = length vts"
proof (induction vts arbitrary: h)
  case Nil
  show ?case by simp
next
  case (Cons vt vts)
  show ?case
    by (cases rule: init_loop_Cons_cases [of ini vt vts os le h]) (simp_all add: Cons.IH)
qed


lemma init_loop_local:
  fixes vts :: "'s sysmon_module_vtable list"
  assumes "i < length vts"
  shows "(i_creates (init_loop vts ini os le h) ! i = Not_reached \<longrightarrow>
            i_modules (init_loop vts ini os le h) ! i = zero_instance) \<and>
         (i_creates (init_loop vts ini os le h) ! i \<noteq> Not_reached \<longrightarrow>
            vtable (i_modules (init_loop vts ini os le h) ! i) = Some (vts ! i) \<and>
            last_refresh_ms (i_modules (init_loop vts ini os le h) ! i) = 0 \<and>
            refresh_ms (i_modules (init_loop vts ini os le h) ! i) = fst (cfg_refresh ini (vts ! i))) \<and>
         (i_creates (init_loop vts ini os le h) ! i = Parse_failed \<longrightarrow>
            \<not> snd (cfg_refresh ini (vts ! i))) \<and>
         (\<not> snd (cfg_refresh ini (vts ! i)) \<longrightarrow>
            i_creates (init_loop vts ini os le h) ! i = Parse_failed \<or>
            i_creates (init_loop vts ini os le h) ! i = Not_reached) \<and>
         (i_creates (init_loop vts ini os le h) ! i = Disabled \<longrightarrow>
            \<not> cfg_enabled ini (vts ! i) \<and>
            \<not> enabled (i_modules (init_loop vts ini os le h) ! i) \<and>
            mod_state (i_modules (init_loop vts ini os le h) ! i) = None) \<and>
         (\<forall>rc. i_creates (init_loop vts ini os le h) ! i = Created rc \<longrightarrow>
            cfg_enabled ini (vts ! i) \<and>
            (enabled (i_modules (init_loop vts ini os le h) ! i) \<longleftrightarrow>
               rc \<noteq> SYSMON_ERR_NOT_SUPPORTED) \<and>
            (\<exists>h'. rc = c_rc (vt_create (vts ! i) ini (mod_section (vts ! i)) os h') \<and>
               mod_state (i_modules (init_loop vts ini os le h) ! i) =
                 c_state (vt_create (vts ! i) ini (mod_section (vts ! i)) os h')))"
  using assms
proof (induction vts arbitrary: i h)
  case Nil
  then show ?case by simp
next
  case (Cons vt vts)
  show ?case
  proof (cases i)
    case 0
    show ?thesis
      by (cases rule: init_loop_Cons_cases [of ini vt vts os le h])
         (auto simp: 0 intro!: exI [of _ h])
  next
    case (Suc k)
    with Cons.prems have k: "k < length vts" by simp
    note IH = Cons.IH [OF k]
    show ?thesis
    proof (cases rule: init_loop_Cons_cases [of ini vt vts os le h])
      case parse
      then show ?thesis using k by (simp add: Suc)
    next
      case disabled
      then show ?thesis using IH [of h] by (simp add: Suc)
    next
      case unsupported
      then show ?thesis
        using IH [of "c_heap (vt_create vt ini (mod_section vt) os h)"] by (simp add: Suc)
    next
      case failed
      then show ?thesis using k by (simp add: Suc)
    next
      case created
      then show ?thesis
        using IH [of "c_heap (vt_create vt ini (mod_section vt) os h)"] by (simp add: Suc)
    qed
  qed
qed

lemma nth_Cons_all_after:
  assumes "\<forall>j. k < j \<and> j < length xs \<longrightarrow> xs ! j = y"
  shows "\<forall>j. Suc k < j \<and> j < length (x # xs) \<longrightarrow> (x # xs) ! j = y"
proof (intro allI impI)
  fix j assume j: "Suc k < j \<and> j < length (x # xs)"
  then obtain j' where j': "j = Suc j'" by (cases j) auto
  with j assms show "(x # xs) ! j = y" by simp
qed

lemma nth_Cons_replicate_after:
  "\<forall>j. 0 < j \<and> j < length (x # replicate n y) \<longrightarrow> (x # replicate n y) ! j = y"
proof (intro allI impI)
  fix j assume j: "0 < j \<and> j < length (x # replicate n y)"
  then obtain j' where j': "j = Suc j'" by (cases j) auto
  with j show "(x # replicate n y) ! j = y" by simp
qed

lemma init_loop_stop:
  fixes vts :: "'s sysmon_module_vtable list"
  assumes "i < length vts"
    and "i_creates (init_loop vts ini os le h) ! i = Parse_failed \<and> rc = SYSMON_ERR_PARSE \<or>
         i_creates (init_loop vts ini os le h) ! i = Created rc \<and> rc \<noteq> SYSMON_OK \<and>
           rc \<noteq> SYSMON_ERR_NOT_SUPPORTED"
  shows "i_rc (init_loop vts ini os le h) = rc \<and>
         (\<forall>j. i < j \<and> j < length vts \<longrightarrow> i_creates (init_loop vts ini os le h) ! j = Not_reached)"
  using assms
proof (induction vts arbitrary: i h)
  case Nil
  then show ?case by simp
next
  case (Cons vt vts)
  let ?out = "init_loop (vt # vts) ini os le h"
  note len = init_loop_length [of vts ini os le]
  show ?case
  proof (cases i)
    case 0
    from Cons.prems(2) have p: "i_creates ?out ! 0 = Parse_failed \<and> rc = SYSMON_ERR_PARSE \<or>
         i_creates ?out ! 0 = Created rc \<and> rc \<noteq> SYSMON_OK \<and> rc \<noteq> SYSMON_ERR_NOT_SUPPORTED"
      by (simp add: 0)
    show ?thesis
    proof (cases rule: init_loop_Cons_cases [of ini vt vts os le h])
      case parse
      with p have "i_rc ?out = rc" by auto
      moreover have "\<forall>j. 0 < j \<and> j < length (vt # vts) \<longrightarrow> i_creates ?out ! j = Not_reached"
        unfolding parse(4) using nth_Cons_replicate_after [of Parse_failed "length vts" Not_reached]
        by simp
      ultimately show ?thesis by (simp add: 0)
    next
      case disabled
      with p show ?thesis by auto
    next
      case unsupported
      with p show ?thesis by auto
    next
      case failed
      with p have "i_rc ?out = rc" by auto
      moreover have "\<forall>j. 0 < j \<and> j < length (vt # vts) \<longrightarrow> i_creates ?out ! j = Not_reached"
        unfolding failed(7)
        using nth_Cons_replicate_after [of "Created (c_rc (vt_create vt ini (mod_section vt) os h))"
            "length vts" Not_reached]
        by simp
      ultimately show ?thesis by (simp add: 0)
    next
      case created
      with p show ?thesis by auto
    qed
  next
    case (Suc k)
    with Cons.prems have k: "k < length vts" by simp
    note IH = Cons.IH [OF k]
    show ?thesis
    proof (cases rule: init_loop_Cons_cases [of ini vt vts os le h])
      case parse
      with Cons.prems(2) k show ?thesis by (simp add: Suc)
    next
      case disabled
      from Cons.prems(2) have p: "i_creates (init_loop vts ini os le h) ! k = Parse_failed \<and>
            rc = SYSMON_ERR_PARSE \<or>
          i_creates (init_loop vts ini os le h) ! k = Created rc \<and> rc \<noteq> SYSMON_OK \<and>
            rc \<noteq> SYSMON_ERR_NOT_SUPPORTED"
        by (simp add: Suc disabled(5))
      from IH [OF p] have 1: "i_rc (init_loop vts ini os le h) = rc"
        and 2: "\<forall>j. k < j \<and> j < length (i_creates (init_loop vts ini os le h)) \<longrightarrow>
           i_creates (init_loop vts ini os le h) ! j = Not_reached"
        by (simp_all add: len)
      from nth_Cons_all_after [OF 2, of Disabled] 1 show ?thesis
        by (simp add: Suc disabled(3) disabled(5) len)
    next
      case unsupported
      let ?h = "c_heap (vt_create vt ini (mod_section vt) os h)"
      from Cons.prems(2) have p: "i_creates (init_loop vts ini os le ?h) ! k = Parse_failed \<and>
            rc = SYSMON_ERR_PARSE \<or>
          i_creates (init_loop vts ini os le ?h) ! k = Created rc \<and> rc \<noteq> SYSMON_OK \<and>
            rc \<noteq> SYSMON_ERR_NOT_SUPPORTED"
        by (simp add: Suc unsupported(6))
      from IH [OF p] have 1: "i_rc (init_loop vts ini os le ?h) = rc"
        and 2: "\<forall>j. k < j \<and> j < length (i_creates (init_loop vts ini os le ?h)) \<longrightarrow>
           i_creates (init_loop vts ini os le ?h) ! j = Not_reached"
        by (simp_all add: len)
      from nth_Cons_all_after [OF 2, of "Created (c_rc (vt_create vt ini (mod_section vt) os h))"] 1
      show ?thesis
        by (simp add: Suc unsupported(4) unsupported(6) len)
    next
      case failed
      with Cons.prems(2) k show ?thesis by (simp add: Suc)
    next
      case created
      let ?h = "c_heap (vt_create vt ini (mod_section vt) os h)"
      from Cons.prems(2) have p: "i_creates (init_loop vts ini os le ?h) ! k = Parse_failed \<and>
            rc = SYSMON_ERR_PARSE \<or>
          i_creates (init_loop vts ini os le ?h) ! k = Created rc \<and> rc \<noteq> SYSMON_OK \<and>
            rc \<noteq> SYSMON_ERR_NOT_SUPPORTED"
        by (simp add: Suc created(6))
      from IH [OF p] have 1: "i_rc (init_loop vts ini os le ?h) = rc"
        and 2: "\<forall>j. k < j \<and> j < length (i_creates (init_loop vts ini os le ?h)) \<longrightarrow>
           i_creates (init_loop vts ini os le ?h) ! j = Not_reached"
        by (simp_all add: len)
      from nth_Cons_all_after [OF 2, of "Created (c_rc (vt_create vt ini (mod_section vt) os h))"] 1
      show ?thesis
        by (simp add: Suc created(4) created(6) len)
    qed
  qed
qed

lemma init_loop_next:
  fixes vts :: "'s sysmon_module_vtable list"
  assumes "Suc i < length vts"
    and "i_creates (init_loop vts ini os le h) ! i = Disabled \<or>
         i_creates (init_loop vts ini os le h) ! i = Created SYSMON_OK \<or>
         i_creates (init_loop vts ini os le h) ! i = Created SYSMON_ERR_NOT_SUPPORTED"
  shows "i_creates (init_loop vts ini os le h) ! Suc i \<noteq> Not_reached"
  using assms
proof (induction vts arbitrary: i h)
  case Nil
  then show ?case by simp
next
  case (Cons vt vts)
  have first: "\<And>h'. vts \<noteq> [] \<Longrightarrow> i_creates (init_loop vts ini os le h') ! 0 \<noteq> Not_reached"
  proof -
    fix h' assume "vts \<noteq> []"
    then obtain v vs where v: "vts = v # vs" by (cases vts) auto
    show "i_creates (init_loop vts ini os le h') ! 0 \<noteq> Not_reached"
      unfolding v by (cases rule: init_loop_Cons_cases [of ini v vs os le h']) simp_all
  qed
  show ?case
  proof (cases i)
    case 0
    with Cons.prems(1) have ne: "vts \<noteq> []" by auto
    show ?thesis
      using Cons.prems(2) first [OF ne]
      by (cases rule: init_loop_Cons_cases [of ini vt vts os le h]) (auto simp: 0)
  next
    case (Suc k)
    with Cons.prems have k: "Suc k < length vts" by simp
    note IH = Cons.IH [OF k]
    show ?thesis
    proof (cases rule: init_loop_Cons_cases [of ini vt vts os le h])
      case parse
      then show ?thesis using k Cons.prems(2) by (simp add: Suc)
    next
      case disabled
      then show ?thesis using IH [of h] Cons.prems(2) by (simp add: Suc)
    next
      case unsupported
      then show ?thesis
        using IH [of "c_heap (vt_create vt ini (mod_section vt) os h)"] Cons.prems(2)
        by (simp add: Suc)
    next
      case failed
      then show ?thesis using k Cons.prems(2) by (simp add: Suc)
    next
      case created
      then show ?thesis
        using IH [of "c_heap (vt_create vt ini (mod_section vt) os h)"] Cons.prems(2)
        by (simp add: Suc)
    qed
  qed
qed

lemma init_loop_rc:
  fixes vts :: "'s sysmon_module_vtable list"
  shows "(i_rc (init_loop vts ini os le h) = SYSMON_OK \<longrightarrow>
           set (i_creates (init_loop vts ini os le h)) \<subseteq>
             {Disabled, Created SYSMON_OK, Created SYSMON_ERR_NOT_SUPPORTED}) \<and>
         (i_rc (init_loop vts ini os le h) \<noteq> SYSMON_OK \<longrightarrow>
            Parse_failed \<in> set (i_creates (init_loop vts ini os le h)) \<and>
              i_rc (init_loop vts ini os le h) = SYSMON_ERR_PARSE \<or>
            Created (i_rc (init_loop vts ini os le h)) \<in> set (i_creates (init_loop vts ini os le h)) \<and>
              i_rc (init_loop vts ini os le h) \<noteq> SYSMON_ERR_NOT_SUPPORTED)"
proof (induction vts arbitrary: h)
  case Nil
  show ?case by simp
next
  case (Cons vt vts)
  show ?case
  proof (cases rule: init_loop_Cons_cases [of ini vt vts os le h])
    case parse
    then show ?thesis by simp
  next
    case disabled
    show ?thesis
      unfolding disabled(3) disabled(5) using Cons.IH [of h] by auto
  next
    case unsupported
    show ?thesis
      unfolding unsupported(4) unsupported(6) unsupported(3)
      using Cons.IH [of "c_heap (vt_create vt ini (mod_section vt) os h)"] by auto
  next
    case failed
    then show ?thesis by simp
  next
    case created
    show ?thesis
      unfolding created(4) created(6) created(3)
      using Cons.IH [of "c_heap (vt_create vt ini (mod_section vt) os h)"] by auto
  qed
qed

lemma lift_create_sel [simp]:
  "c_rc (lift_create w out) = c_rc out"
  "c_state (lift_create w out) = map_option w (c_state out)"
  "c_error (lift_create w out) = c_error out"
  "c_heap (lift_create w out) = c_heap out"
  by (simp_all add: lift_create_def)

lemma known_modules_cases:
  assumes "vt \<in> set known_modules"
  obtains "vt = sysmon_cpu_module" | "vt = sysmon_ram_module" | "vt = sysmon_battery_module"
    | "vt = sysmon_network_module" | "vt = sysmon_storage_module"
  using assms by (auto simp: known_modules_def sysmon_builtin_modules_def)

lemma module_create:
  assumes "vt \<in> set known_modules"
  shows "(c_rc (vt_create vt ini sect os h) = SYSMON_OK \<or>
          c_rc (vt_create vt ini sect os h) = SYSMON_ERR_NOT_SUPPORTED \<or>
          c_rc (vt_create vt ini sect os h) = SYSMON_ERR_OUT_OF_MEMORY) \<and>
         (c_rc (vt_create vt ini sect os h) = SYSMON_OK \<longrightarrow>
            (\<exists>st. c_state (vt_create vt ini sect os h) = Some st \<and> module_of st = vt)) \<and>
         (c_rc (vt_create vt ini sect os h) \<noteq> SYSMON_OK \<longrightarrow>
            c_state (vt_create vt ini sect os h) = None) \<and>
         (heap_ok h \<longrightarrow> c_rc (vt_create vt ini sect os h) \<noteq> SYSMON_ERR_OUT_OF_MEMORY \<and>
            heap_ok (c_heap (vt_create vt ini sect os h)))"
  using assms
proof (cases rule: known_modules_cases)
  case 1
  then show ?thesis
    by (auto simp: sysmon_cpu_module_def cpu_create_def split: prod.splits dest: alloc_heap_ok)
next
  case 2
  then show ?thesis
    by (auto simp: sysmon_ram_module_def ram_create_def sysmon_set_error_def
        split: prod.splits sum.splits dest: alloc_heap_ok strdup_heap_ok)
next
  case 3
  then show ?thesis
    by (auto simp: sysmon_battery_module_def battery_create_def sysmon_set_error_def
        split: prod.splits sum.splits dest: alloc_heap_ok strdup_heap_ok)
next
  case 4
  then show ?thesis
    by (auto simp: sysmon_network_module_def network_create_def sysmon_set_error_def Let_def
        split: prod.splits sum.splits dest: alloc_heap_ok strdup_heap_ok)
next
  case 5
  then show ?thesis
    by (auto simp: sysmon_storage_module_def storage_create_def sysmon_set_error_def Let_def
        split: prod.splits sum.splits dest: alloc_heap_ok strdup_heap_ok)
qed

lemma known_modules_destroy: "vt \<in> set known_modules \<Longrightarrow> vt_destroy vt \<and> vt_poll vt \<noteq> None"
  by (erule known_modules_cases)
     (simp_all add: sysmon_cpu_module_def sysmon_ram_module_def sysmon_battery_module_def
        sysmon_network_module_def sysmon_storage_module_def)

lemma init_loop_instance_inv:
  assumes "set vts \<subseteq> set known_modules" "i_rc (init_loop vts ini os le h) = SYSMON_OK"
  shows "list_all (instance_inv ini) (i_modules (init_loop vts ini os le h)) \<and>
         map vtable (i_modules (init_loop vts ini os le h)) = map Some vts"
  using assms
proof (induction vts arbitrary: h)
  case Nil
  show ?case by simp
next
  case (Cons vt vts)
  then have vt: "vt \<in> set known_modules" and vts: "set vts \<subseteq> set known_modules" by simp_all
  note IH = Cons.IH [OF vts]
  note rc = Cons.prems(2)
  show ?case
  proof (cases rule: init_loop_Cons_cases [of ini vt vts os le h])
    case parse
    with rc show ?thesis by simp
  next
    case disabled
    with rc IH [of h] show ?thesis by (simp add: instance_inv_def)
  next
    case unsupported
    with rc IH [of "c_heap (vt_create vt ini (mod_section vt) os h)"] show ?thesis
      by (simp add: instance_inv_def)
  next
    case failed
    with rc show ?thesis by simp
  next
    case created
    from module_create [OF vt, of ini "mod_section vt" os h] created(3) obtain st where
      st: "c_state (vt_create vt ini (mod_section vt) os h) = Some st" "module_of st = vt"
      by auto
    from created rc IH [of "c_heap (vt_create vt ini (mod_section vt) os h)"] st show ?thesis
      by (simp add: instance_inv_def cfg_enabled_def mod_section_def)
  qed
qed

lemma sysmon_create_Some:
  assumes "cr_sysmon (sysmon_create options out_sysmon load_file os h) = Some s"
  shows "\<exists>cfg h2.
     s = \<lparr>sm_config = cfg, sm_ini = fst (snd (load_file (ini_path_of options))),
          sm_modules = i_modules (init_loop sysmon_builtin_modules
             (fst (snd (load_file (ini_path_of options)))) os None h2),
          sm_last_error = i_last_error (init_loop sysmon_builtin_modules
             (fst (snd (load_file (ini_path_of options)))) os None h2)\<rparr> \<and>
     i_rc (init_loop sysmon_builtin_modules
             (fst (snd (load_file (ini_path_of options)))) os None h2) = SYSMON_OK \<and>
     cr_creates (sysmon_create options out_sysmon load_file os h) =
       i_creates (init_loop sysmon_builtin_modules
             (fst (snd (load_file (ini_path_of options)))) os None h2) \<and>
     cr_rc (sysmon_create options out_sysmon load_file os h) = SYSMON_OK"
proof -
  have ne: "sysmon_builtin_modules \<noteq> []" by (simp add: sysmon_builtin_modules_def)
  from assms show ?thesis
    by (auto simp: sysmon_create_def init_modules_def ne Let_def ini_path_of_def
        split: prod.splits if_splits)
qed

lemma sysmon_create_ok:
  assumes "cr_sysmon (sysmon_create options out_sysmon load_file os h) = Some s"
  shows "engine_inv s \<and> cr_rc (sysmon_create options out_sysmon load_file os h) = SYSMON_OK"
proof -
  have sub: "set sysmon_builtin_modules \<subseteq> set known_modules"
    by (auto simp: known_modules_def)
  from sysmon_create_Some [OF assms] obtain cfg h2 where
    s: "s = \<lparr>sm_config = cfg, sm_ini = fst (snd (load_file (ini_path_of options))),
          sm_modules = i_modules (init_loop sysmon_builtin_modules
             (fst (snd (load_file (ini_path_of options)))) os None h2),
          sm_last_error = i_last_error (init_loop sysmon_builtin_modules
             (fst (snd (load_file (ini_path_of options)))) os None h2)\<rparr>"
    and rc: "i_rc (init_loop sysmon_builtin_modules
             (fst (snd (load_file (ini_path_of options)))) os None h2) = SYSMON_OK"
    and ok: "cr_rc (sysmon_create options out_sysmon load_file os h) = SYSMON_OK"
    by blast
  from init_loop_instance_inv [OF sub rc] show ?thesis
    by (simp add: engine_inv_def s ok)
qed

lemma engine_reachable_inv: "engine_reachable s \<Longrightarrow> engine_inv s"
proof (induction rule: engine_reachable.induct)
  case (engine_created options out_sysmon load_file os h s)
  then show ?case by (simp add: sysmon_create_ok)
next
  case (engine_polled s out_snapshot clk os h s')
  then show ?case by (auto intro: engine_inv_polled)
qed

lemma strtoul10_non_numeric:
  assumes "\<not> numeric_string v"
  shows "fst (snd (strtoul10 v)) = 0 \<or> fst (snd (strtoul10 v)) < length v"
proof -
  define s1 where "s1 = dropWhile c_isspace v"
  define s2 where "s2 = (if s1 \<noteq> [] \<and> (hd s1 = CHR ''-'' \<or> hd s1 = CHR ''+'') then tl s1 else s1)"
  define ds where "ds = takeWhile c_isdigit s2"
  have l1: "length s1 \<le> length v" unfolding s1_def by (rule length_dropWhile_le)
  have l2: "length s2 \<le> length s1" unfolding s2_def by simp
  have l3: "length ds \<le> length s2" unfolding ds_def by (rule length_takeWhile_le)
  have "s2 = [] \<or> \<not> list_all c_isdigit s2"
    using assms unfolding numeric_string_def Let_def s2_def s1_def by blast
  then have "ds = [] \<or> length ds < length s2"
  proof
    assume "s2 = []" then show ?thesis by (simp add: ds_def)
  next
    assume "\<not> list_all c_isdigit s2"
    then have "ds \<noteq> s2" unfolding ds_def by (simp add: list_all_iff)
    moreover have "\<exists>r. s2 = ds @ r" unfolding ds_def by (metis takeWhile_dropWhile_id)
    ultimately show ?thesis by auto
  qed
  then show ?thesis
  proof
    assume "ds = []"
    then show ?thesis
      by (simp add: strtoul10_def Let_def s1_def [symmetric] s2_def [symmetric] ds_def [symmetric])
  next
    assume lt: "length ds < length s2"
    have "fst (snd (strtoul10 v)) = 0 \<or> fst (snd (strtoul10 v)) = (length v - length s2) + length ds"
      by (simp add: strtoul10_def Let_def s1_def [symmetric] s2_def [symmetric] ds_def [symmetric])
    moreover have "(length v - length s2) + length ds < length v"
      using lt l1 l2 by arith
    ultimately show ?thesis by auto
  qed
qed

lemma get_u32_non_numeric:
  assumes "sysmon_ini_get ini sect key = Some v" "v \<noteq> []" "\<not> numeric_string v"
  shows "sysmon_ini_get_u32 ini sect key d = (d, False)"
  using assms strtoul10_non_numeric [OF assms(3)]
  by (auto simp: sysmon_ini_get_u32_def split: prod.splits)

lemma get_u32_empty:
  "sysmon_ini_get ini sect key = Some [] \<Longrightarrow> sysmon_ini_get_u32 ini sect key d = (d, True)"
  by (simp add: sysmon_ini_get_u32_def)

lemma zero_instance_sel [simp]:
  "mod_state zero_instance = None" "vtable zero_instance = None" "\<not> enabled zero_instance"
  by (simp_all add: zero_instance_def)

lemma init_loop_destroy:
  assumes "set vts \<subseteq> set known_modules"
  shows "sysmon_destroy (Some (s\<lparr>sm_modules := i_modules (init_loop vts ini os le h)\<rparr>)) =
           map (\<lambda>(vt, c). vt_name vt)
             (filter (\<lambda>(vt, c). c = Created SYSMON_OK) (zip vts (i_creates (init_loop vts ini os le h))))"
  using assms
proof (induction vts arbitrary: h)
  case Nil
  show ?case by (simp add: sysmon_destroy_def)
next
  case (Cons vt vts)
  then have vt: "vt \<in> set known_modules" and vts: "set vts \<subseteq> set known_modules" by simp_all
  note IH = Cons.IH [OF vts, unfolded sysmon_destroy_def, simplified]
  note mc = module_create [OF vt, of ini "mod_section vt" os h]
  note kd = known_modules_destroy [OF vt]
  have z: "filter (\<lambda>inst. mod_state inst \<noteq> None \<and> vtable inst \<noteq> None \<and> vt_destroy (the (vtable inst)))
      (replicate (length vts) (zero_instance :: module_state sysmon_module_instance)) = []"
    by (simp add: filter_empty_conv)
  have z': "filter (\<lambda>(vt, c). c = Created SYSMON_OK) (zip vts (replicate (length vts) Not_reached)) = []"
    by (auto simp: filter_empty_conv dest: set_zip_rightD)
  show ?case
  proof (cases rule: init_loop_Cons_cases [of ini vt vts os le h])
    case parse
    then show ?thesis by (simp add: sysmon_destroy_def z'[simplified])
  next
    case disabled
    then show ?thesis using IH [of h] by (simp add: sysmon_destroy_def)
  next
    case unsupported
    then show ?thesis
      using IH [of "c_heap (vt_create vt ini (mod_section vt) os h)"] mc
      by (simp add: sysmon_destroy_def)
  next
    case failed
    then show ?thesis using mc by (simp add: sysmon_destroy_def z'[simplified])
  next
    case created
    then show ?thesis
      using IH [of "c_heap (vt_create vt ini (mod_section vt) os h)"] mc kd
      by (auto simp: sysmon_destroy_def)
  qed
qed

lemma builtin_names [simp]:
  "vt_name sysmon_cpu_module = ''cpu''" "vt_name sysmon_ram_module = ''ram''"
  "vt_name sysmon_battery_module = ''battery''" "vt_name sysmon_network_module = ''network''"
  "vt_name sysmon_storage_module = ''storage''"
  by (simp_all add: sysmon_cpu_module_def sysmon_ram_module_def sysmon_battery_module_def
      sysmon_network_module_def sysmon_storage_module_def)

lemma builtin_creates [simp]:
  "vt_create sysmon_cpu_module ini sect os h = lift_create Cpu_state (cpu_create ini sect os h)"
  "vt_create sysmon_ram_module ini sect os h = lift_create Ram_state (ram_create ini sect os h)"
  "vt_create sysmon_battery_module ini sect os h =
     lift_create Battery_state (battery_create ini sect os h)"
  "vt_create sysmon_network_module ini sect os h =
     lift_create Network_state (network_create ini sect os h)"
  by (simp_all add: sysmon_cpu_module_def sysmon_ram_module_def sysmon_battery_module_def
      sysmon_network_module_def)

lemma init_loop_heap_ok:
  assumes "set vts \<subseteq> set known_modules" "heap_ok h"
  shows "set (i_creates (init_loop vts ini os le h)) \<subseteq>
     {Not_reached, Parse_failed, Disabled, Created SYSMON_OK, Created SYSMON_ERR_NOT_SUPPORTED}"
  using assms
proof (induction vts arbitrary: h)
  case Nil
  show ?case by simp
next
  case (Cons vt vts)
  then have vt: "vt \<in> set known_modules" and vts: "set vts \<subseteq> set known_modules" by simp_all
  note mc = module_create [OF vt, of ini "mod_section vt" os h]
  from mc Cons.prems(2) have hk: "heap_ok (c_heap (vt_create vt ini (mod_section vt) os h))"
    and noom: "c_rc (vt_create vt ini (mod_section vt) os h) \<noteq> SYSMON_ERR_OUT_OF_MEMORY"
    by simp_all
  show ?case
  proof (cases rule: init_loop_Cons_cases [of ini vt vts os le h])
    case parse
    then show ?thesis by auto
  next
    case disabled
    then show ?thesis using Cons.IH [OF vts Cons.prems(2)] by auto
  next
    case unsupported
    then show ?thesis using Cons.IH [OF vts hk] by auto
  next
    case failed
    with mc noom show ?thesis by auto
  next
    case created
    then show ?thesis using Cons.IH [OF vts hk] by auto
  qed
qed

lemma sysmon_create_cases:
  fixes options load_file os h
  defines "res \<equiv> sysmon_create options True load_file os h"
    and "ini \<equiv> fst (snd (load_file (ini_path_of options)))"
  obtains
    (early) "cr_creates res = []" "cr_sysmon res = None" "cr_rc res \<noteq> SYSMON_OK"
      "\<not> (heap_ok h \<and> fst (load_file (ini_path_of options)) = SYSMON_OK \<and>
          (\<forall>h'. fst (sysmon_config_load_from_ini ini h') = SYSMON_OK))"
  | (no_array) "cr_creates res = map (\<lambda>v. Not_reached) sysmon_builtin_modules"
      "cr_sysmon res = None" "cr_rc res = SYSMON_ERR_OUT_OF_MEMORY" "\<not> heap_ok h"
  | (looped) h2 s0 where
      "cr_creates res = i_creates (init_loop sysmon_builtin_modules ini os None h2)"
      "cr_rc res = i_rc (init_loop sysmon_builtin_modules ini os None h2)"
      "heap_ok h \<longrightarrow> heap_ok h2"
      "i_rc (init_loop sysmon_builtin_modules ini os None h2) = SYSMON_OK \<longrightarrow>
         cr_sysmon res = Some (s0\<lparr>sm_modules :=
            i_modules (init_loop sysmon_builtin_modules ini os None h2)\<rparr>)"
      "i_rc (init_loop sysmon_builtin_modules ini os None h2) \<noteq> SYSMON_OK \<longrightarrow>
         cr_sysmon res = None \<and>
         cr_destroyed res = sysmon_destroy (Some (s0\<lparr>sm_modules :=
            i_modules (init_loop sysmon_builtin_modules ini os None h2)\<rparr>))"
proof -
  have ne: "sysmon_builtin_modules \<noteq> []" by (simp add: sysmon_builtin_modules_def)
  obtain ok1 h1 where a1: "alloc h = (ok1, h1)" by (cases "alloc h") auto
  obtain rc loaded err where lf: "load_file (ini_path_of options) = (rc, loaded, err)"
    by (cases "load_file (ini_path_of options)") auto
  then have ini: "ini = loaded" by (simp add: ini_def)
  obtain rc1 cfg err1 hc where cf: "sysmon_config_load_from_ini loaded h1 = (rc1, cfg, err1, hc)"
    by (cases "sysmon_config_load_from_ini loaded h1") auto
  have hc: "rc1 = SYSMON_OK \<Longrightarrow> hc = h1"
    using cf by (auto simp: sysmon_config_load_from_ini_def split: if_splits prod.splits)
  obtain ok2 h2 where a2: "alloc hc = (ok2, h2)" by (cases "alloc hc") auto
  have hk1: "heap_ok h \<Longrightarrow> ok1 \<and> heap_ok h1" using a1 by (auto dest: alloc_heap_ok)
  consider (e1) "\<not> ok1" | (e2) "ok1" "rc \<noteq> SYSMON_OK" | (e3) "ok1" "rc = SYSMON_OK" "rc1 \<noteq> SYSMON_OK"
    | (e4) "ok1" "rc = SYSMON_OK" "rc1 = SYSMON_OK" "\<not> ok2"
    | (e5) "ok1" "rc = SYSMON_OK" "rc1 = SYSMON_OK" "ok2"
    by blast
  then show ?thesis
  proof cases
    case e1
    show ?thesis
      by (rule early)
         (use e1 a1 hk1 in \<open>auto simp: res_def sysmon_create_def\<close>)
  next
    case e2
    show ?thesis
      by (rule early)
         (use e2 a1 lf in \<open>auto simp: res_def sysmon_create_def Let_def ini_path_of_def
            sysmon_destroy_def split: prod.splits\<close>)
  next
    case e3
    have "fst (sysmon_config_load_from_ini ini h1) \<noteq> SYSMON_OK"
      using e3 cf ini by simp
    then have n: "\<not> (\<forall>h'. fst (sysmon_config_load_from_ini ini h') = SYSMON_OK)" by blast
    show ?thesis
      by (rule early)
         (use e3 a1 lf cf n in \<open>auto simp: res_def sysmon_create_def Let_def ini_path_of_def
            sysmon_destroy_def split: prod.splits\<close>)
  next
    case e4
    have nk: "\<not> heap_ok h"
      using hk1 hc [OF e4(3)] a2 e4(4) by (auto dest: alloc_heap_ok)
    show ?thesis
      by (rule no_array)
         (use e4 a1 lf cf a2 nk in \<open>auto simp: res_def sysmon_create_def Let_def ini_path_of_def
            init_modules_def ne sysmon_destroy_def split: prod.splits\<close>)
  next
    case e5
    have hk2: "heap_ok h \<longrightarrow> heap_ok h2"
      using hk1 hc [OF e5(3)] a2 by (auto dest: alloc_heap_ok)
    let ?s0 = "\<lparr>sm_config = cfg, sm_ini = loaded, sm_modules = [],
        sm_last_error = i_last_error (init_loop sysmon_builtin_modules ini os None h2)\<rparr>"
    show ?thesis
      by (rule looped [of h2 ?s0])
         (use e5 a1 lf cf a2 hk2 ini in \<open>auto simp: res_def sysmon_create_def Let_def
            ini_path_of_def init_modules_def ne split: prod.splits\<close>)
  qed
qed

lemma builtin_known: "set sysmon_builtin_modules \<subseteq> set known_modules"
  by (auto simp: known_modules_def)

lemma create_outcomes:
  "(cr_rc (sysmon_create options True load_file os h) \<noteq> SYSMON_OK \<longrightarrow>
      cr_sysmon (sysmon_create options True load_file os h) = None) \<and>
   (\<forall>i. i < length (cr_creates (sysmon_create options True load_file os h)) \<longrightarrow>
      (cr_creates (sysmon_create options True load_file os h) ! i =
          Created SYSMON_ERR_NOT_SUPPORTED \<longrightarrow>
         (Suc i < length (cr_creates (sysmon_create options True load_file os h)) \<longrightarrow>
            cr_creates (sysmon_create options True load_file os h) ! Suc i \<noteq> Not_reached) \<and>
         (\<forall>s. cr_sysmon (sysmon_create options True load_file os h) = Some s \<longrightarrow>
            \<not> enabled (sm_modules s ! i))) \<and>
      (\<forall>rc. cr_creates (sysmon_create options True load_file os h) ! i = Created rc \<and>
              rc \<noteq> SYSMON_OK \<and> rc \<noteq> SYSMON_ERR_NOT_SUPPORTED \<or>
            cr_creates (sysmon_create options True load_file os h) ! i = Parse_failed \<and>
              rc = SYSMON_ERR_PARSE \<longrightarrow>
         cr_rc (sysmon_create options True load_file os h) = rc \<and>
         cr_sysmon (sysmon_create options True load_file os h) = None \<and>
         (\<forall>j. i < j \<and> j < length (cr_creates (sysmon_create options True load_file os h)) \<longrightarrow>
            cr_creates (sysmon_create options True load_file os h) ! j = Not_reached) \<and>
         cr_destroyed (sysmon_create options True load_file os h) =
           map (\<lambda>(vt, c). vt_name vt)
             (filter (\<lambda>(vt, c). c = Created SYSMON_OK)
                (zip sysmon_builtin_modules
                   (cr_creates (sysmon_create options True load_file os h))))) \<and>
      (\<forall>v. cr_creates (sysmon_create options True load_file os h) ! i \<noteq> Not_reached \<and>
            sysmon_ini_get (fst (snd (load_file (ini_path_of options))))
              (Some (take 127 (''module.'' @ vt_name (sysmon_builtin_modules ! i))))
              (Some ''refresh_ms'') = Some v \<and> v \<noteq> [] \<and> \<not> numeric_string v \<longrightarrow>
         cr_creates (sysmon_create options True load_file os h) ! i = Parse_failed)) \<and>
   (heap_ok h \<and> fst (load_file (ini_path_of options)) = SYSMON_OK \<and>
    (\<forall>h'. fst (sysmon_config_load_from_ini (fst (snd (load_file (ini_path_of options)))) h') =
       SYSMON_OK) \<and>
    (\<exists>i < length sysmon_builtin_modules. \<exists>v.
       sysmon_ini_get (fst (snd (load_file (ini_path_of options))))
         (Some (take 127 (''module.'' @ vt_name (sysmon_builtin_modules ! i))))
         (Some ''refresh_ms'') = Some v \<and> v \<noteq> [] \<and> \<not> numeric_string v) \<longrightarrow>
      cr_rc (sysmon_create options True load_file os h) = SYSMON_ERR_PARSE \<and>
      cr_sysmon (sysmon_create options True load_file os h) = None)"
  (is "?A \<and> ?B \<and> ?C")
proof -
  let ?res = "sysmon_create options True load_file os h"
  let ?ini = "fst (snd (load_file (ini_path_of options)))"
  let ?bms = "sysmon_builtin_modules"
  have bad: "\<And>i v. i < length ?bms \<Longrightarrow>
      sysmon_ini_get ?ini (Some (take 127 (''module.'' @ vt_name (?bms ! i)))) (Some ''refresh_ms'') =
        Some v \<Longrightarrow> v \<noteq> [] \<Longrightarrow> \<not> numeric_string v \<Longrightarrow> \<not> snd (cfg_refresh ?ini (?bms ! i))"
    by (simp add: cfg_refresh_def mod_section_def get_u32_non_numeric)
  show ?thesis
  proof (cases rule: sysmon_create_cases [of options load_file os h])
    case early
    have A: ?A using early(2) by simp
    have B: ?B using early(1) by simp
    have C: ?C using early(4) by blast
    from A B C show ?thesis by blast
  next
    case no_array
    have A: ?A using no_array(2) by simp
    have B: ?B using no_array(1,2) by simp
    have C: ?C using no_array(4) by blast
    from A B C show ?thesis by blast
  next
    case (looped h2 s0)
    let ?out = "init_loop ?bms ?ini os None h2"
    note len = init_loop_length [of ?bms ?ini os None h2]
    have A: ?A using looped(2,4,5) by auto
    have B: ?B
    proof (intro allI impI)
      fix i assume "i < length (cr_creates ?res)"
      then have i: "i < length ?bms" by (simp add: looped(1) len)
      note loc = init_loop_local [OF i, of ?ini os None h2]
      have ns: "cr_creates ?res ! i = Created SYSMON_ERR_NOT_SUPPORTED \<longrightarrow>
         (Suc i < length (cr_creates ?res) \<longrightarrow> cr_creates ?res ! Suc i \<noteq> Not_reached) \<and>
         (\<forall>s. cr_sysmon ?res = Some s \<longrightarrow> \<not> enabled (sm_modules s ! i))"
      proof (intro impI conjI allI)
        assume c: "cr_creates ?res ! i = Created SYSMON_ERR_NOT_SUPPORTED"
        { assume "Suc i < length (cr_creates ?res)"
          then have "Suc i < length ?bms" by (simp add: looped(1) len)
          from init_loop_next [OF this, of ?ini os None h2] c
          show "cr_creates ?res ! Suc i \<noteq> Not_reached" by (simp add: looped(1)) }
        { fix s assume s: "cr_sysmon ?res = Some s"
          with looped(4,5) have "sm_modules s = i_modules ?out" by (cases "i_rc ?out = SYSMON_OK") auto
          with loc c show "\<not> enabled (sm_modules s ! i)" by (simp add: looped(1)) }
      qed
      have stop: "\<forall>rc. cr_creates ?res ! i = Created rc \<and>
              rc \<noteq> SYSMON_OK \<and> rc \<noteq> SYSMON_ERR_NOT_SUPPORTED \<or>
            cr_creates ?res ! i = Parse_failed \<and> rc = SYSMON_ERR_PARSE \<longrightarrow>
         cr_rc ?res = rc \<and> cr_sysmon ?res = None \<and>
         (\<forall>j. i < j \<and> j < length (cr_creates ?res) \<longrightarrow> cr_creates ?res ! j = Not_reached) \<and>
         cr_destroyed ?res =
           map (\<lambda>(vt, c). vt_name vt)
             (filter (\<lambda>(vt, c). c = Created SYSMON_OK) (zip ?bms (cr_creates ?res)))"
      proof (intro allI impI)
        fix rc
        assume "cr_creates ?res ! i = Created rc \<and>
              rc \<noteq> SYSMON_OK \<and> rc \<noteq> SYSMON_ERR_NOT_SUPPORTED \<or>
            cr_creates ?res ! i = Parse_failed \<and> rc = SYSMON_ERR_PARSE"
        then have c: "i_creates ?out ! i = Parse_failed \<and> rc = SYSMON_ERR_PARSE \<or>
            i_creates ?out ! i = Created rc \<and> rc \<noteq> SYSMON_OK \<and> rc \<noteq> SYSMON_ERR_NOT_SUPPORTED"
          by (auto simp: looped(1))
        from init_loop_stop [OF i c] have rc: "i_rc ?out = rc"
          and nr: "\<forall>j. i < j \<and> j < length ?bms \<longrightarrow> i_creates ?out ! j = Not_reached"
          by simp_all
        from c have "rc \<noteq> SYSMON_OK" by auto
        with rc looped(5) have n: "cr_sysmon ?res = None"
          and d: "cr_destroyed ?res = sysmon_destroy (Some (s0\<lparr>sm_modules := i_modules ?out\<rparr>))"
          by simp_all
        show "cr_rc ?res = rc \<and> cr_sysmon ?res = None \<and>
         (\<forall>j. i < j \<and> j < length (cr_creates ?res) \<longrightarrow> cr_creates ?res ! j = Not_reached) \<and>
         cr_destroyed ?res =
           map (\<lambda>(vt, c). vt_name vt)
             (filter (\<lambda>(vt, c). c = Created SYSMON_OK) (zip ?bms (cr_creates ?res)))"
          using rc n nr d init_loop_destroy [OF builtin_known, where s=s0 and ini="?ini" and os=os and le=None and h=h2]
          by (simp add: looped(1,2) len)
      qed
      have parse: "\<forall>v. cr_creates ?res ! i \<noteq> Not_reached \<and>
            sysmon_ini_get ?ini (Some (take 127 (''module.'' @ vt_name (?bms ! i))))
              (Some ''refresh_ms'') = Some v \<and> v \<noteq> [] \<and> \<not> numeric_string v \<longrightarrow>
         cr_creates ?res ! i = Parse_failed"
        using bad [OF i] loc by (auto simp: looped(1))
      from ns stop parse
      show "(cr_creates ?res ! i = Created SYSMON_ERR_NOT_SUPPORTED \<longrightarrow>
         (Suc i < length (cr_creates ?res) \<longrightarrow> cr_creates ?res ! Suc i \<noteq> Not_reached) \<and>
         (\<forall>s. cr_sysmon ?res = Some s \<longrightarrow> \<not> enabled (sm_modules s ! i))) \<and>
      (\<forall>rc. cr_creates ?res ! i = Created rc \<and>
              rc \<noteq> SYSMON_OK \<and> rc \<noteq> SYSMON_ERR_NOT_SUPPORTED \<or>
            cr_creates ?res ! i = Parse_failed \<and> rc = SYSMON_ERR_PARSE \<longrightarrow>
         cr_rc ?res = rc \<and> cr_sysmon ?res = None \<and>
         (\<forall>j. i < j \<and> j < length (cr_creates ?res) \<longrightarrow> cr_creates ?res ! j = Not_reached) \<and>
         cr_destroyed ?res =
           map (\<lambda>(vt, c). vt_name vt)
             (filter (\<lambda>(vt, c). c = Created SYSMON_OK) (zip ?bms (cr_creates ?res)))) \<and>
      (\<forall>v. cr_creates ?res ! i \<noteq> Not_reached \<and>
            sysmon_ini_get ?ini (Some (take 127 (''module.'' @ vt_name (?bms ! i))))
              (Some ''refresh_ms'') = Some v \<and> v \<noteq> [] \<and> \<not> numeric_string v \<longrightarrow>
         cr_creates ?res ! i = Parse_failed)"
        by blast
    qed
    have C: ?C
    proof (intro impI)
      assume hyp: "heap_ok h \<and> fst (load_file (ini_path_of options)) = SYSMON_OK \<and>
        (\<forall>h'. fst (sysmon_config_load_from_ini ?ini h') = SYSMON_OK) \<and>
        (\<exists>i < length ?bms. \<exists>v.
           sysmon_ini_get ?ini (Some (take 127 (''module.'' @ vt_name (?bms ! i))))
             (Some ''refresh_ms'') = Some v \<and> v \<noteq> [] \<and> \<not> numeric_string v)"
      then obtain i v where i: "i < length ?bms"
        and v: "sysmon_ini_get ?ini (Some (take 127 (''module.'' @ vt_name (?bms ! i))))
             (Some ''refresh_ms'') = Some v" "v \<noteq> []" "\<not> numeric_string v"
        by blast
      from hyp looped(3) have hk: "heap_ok h2" by simp
      note loc = init_loop_local [OF i, of ?ini os None h2]
      from bad [OF i v] loc have ci: "i_creates ?out ! i = Parse_failed \<or> i_creates ?out ! i = Not_reached"
        by simp
      have mem: "i_creates ?out ! i \<in> set (i_creates ?out)" using i len by simp
      have nok: "i_rc ?out \<noteq> SYSMON_OK"
      proof
        assume "i_rc ?out = SYSMON_OK"
        with init_loop_rc [of ?bms ?ini os None h2] mem ci show False by auto
      qed
      with init_loop_rc [of ?bms ?ini os None h2]
        init_loop_heap_ok [OF builtin_known hk, of ?ini os None]
      have "i_rc ?out = SYSMON_ERR_PARSE" by auto
      with looped(2,5) show "cr_rc ?res = SYSMON_ERR_PARSE \<and> cr_sysmon ?res = None" by simp
    qed
    from A B C show ?thesis by blast
  qed
qed

lemma create_rc_handle:
  "cr_rc (sysmon_create options True load_file os h) = SYSMON_OK \<longleftrightarrow>
   cr_sysmon (sysmon_create options True load_file os h) \<noteq> None"
proof (cases rule: sysmon_create_cases [of options load_file os h])
  case early
  then show ?thesis by simp
next
  case no_array
  then show ?thesis by simp
next
  case (looped h2 s0)
  then show ?thesis by (cases "cr_rc (sysmon_create options True load_file os h) = SYSMON_OK") auto
qed

lemma create_not_aborted:
  assumes ne: "cr_creates (sysmon_create options True load_file os h) \<noteq> []"
    and all: "\<forall>c \<in> set (cr_creates (sysmon_create options True load_file os h)).
        c = Disabled \<or> c = Created SYSMON_OK \<or> c = Created SYSMON_ERR_NOT_SUPPORTED"
  shows "cr_rc (sysmon_create options True load_file os h) = SYSMON_OK \<and>
     (\<exists>s. cr_sysmon (sysmon_create options True load_file os h) = Some s \<and>
        length (sm_modules s) = length (cr_creates (sysmon_create options True load_file os h)) \<and>
        (\<forall>i < length (sm_modules s).
           enabled (sm_modules s ! i) \<longleftrightarrow>
             cr_creates (sysmon_create options True load_file os h) ! i = Created SYSMON_OK))"
proof (cases rule: sysmon_create_cases [of options load_file os h])
  case early
  with ne show ?thesis by simp
next
  case no_array
  have "Not_reached \<in> set (map (\<lambda>v. Not_reached) sysmon_builtin_modules)"
    by (simp add: sysmon_builtin_modules_def)
  with no_array(1) all show ?thesis by auto
next
  case (looped h2 s0)
  let ?ini = "fst (snd (load_file (ini_path_of options)))"
  let ?out = "init_loop sysmon_builtin_modules ?ini os None h2"
  note len = init_loop_length [of sysmon_builtin_modules ?ini os None h2]
  have ok: "i_rc ?out = SYSMON_OK"
  proof (rule ccontr)
    assume n: "i_rc ?out \<noteq> SYSMON_OK"
    with init_loop_rc [of sysmon_builtin_modules ?ini os None h2]
    consider "Parse_failed \<in> set (i_creates ?out)"
      | "Created (i_rc ?out) \<in> set (i_creates ?out)" "i_rc ?out \<noteq> SYSMON_ERR_NOT_SUPPORTED"
      by blast
    then show False
    proof cases
      case 1
      with all looped(1) show False by auto
    next
      case 2
      with all looped(1) n show False by auto
    qed
  qed
  with looped have s: "cr_sysmon (sysmon_create options True load_file os h) =
      Some (s0\<lparr>sm_modules := i_modules ?out\<rparr>)" and rc: "cr_rc (sysmon_create options True load_file os h) = SYSMON_OK"
    by simp_all
  have en: "\<forall>i < length (i_modules ?out). enabled (i_modules ?out ! i) \<longleftrightarrow>
      i_creates ?out ! i = Created SYSMON_OK"
  proof (intro allI impI)
    fix i assume "i < length (i_modules ?out)"
    then have i: "i < length sysmon_builtin_modules" by (simp add: len)
    then have "i_creates ?out ! i \<in> set (i_creates ?out)" by (simp add: len)
    with all looped(1) have c: "i_creates ?out ! i = Disabled \<or> i_creates ?out ! i = Created SYSMON_OK \<or>
        i_creates ?out ! i = Created SYSMON_ERR_NOT_SUPPORTED" by simp
    with init_loop_local [OF i, of ?ini os None h2]
    show "enabled (i_modules ?out ! i) \<longleftrightarrow> i_creates ?out ! i = Created SYSMON_OK"
      by auto
  qed
  show ?thesis using s rc en looped(1) len by simp
qed

lemma create_succeeds:
  assumes hk: "heap_ok h"
    and lf: "fst (load_file (ini_path_of options)) = SYSMON_OK"
    and cf: "\<forall>h'. fst (sysmon_config_load_from_ini (fst (snd (load_file (ini_path_of options)))) h') =
       SYSMON_OK"
    and rf: "\<forall>i < length sysmon_builtin_modules.
       snd (sysmon_ini_get_u32 (fst (snd (load_file (ini_path_of options))))
         (Some (take 127 (''module.'' @ vt_name (sysmon_builtin_modules ! i))))
         (Some ''refresh_ms'') 0)"
  shows "cr_rc (sysmon_create options True load_file os h) = SYSMON_OK \<and>
     cr_sysmon (sysmon_create options True load_file os h) \<noteq> None \<and>
     length (cr_creates (sysmon_create options True load_file os h)) =
       length sysmon_builtin_modules \<and>
     (\<forall>c \<in> set (cr_creates (sysmon_create options True load_file os h)).
        c = Disabled \<or> c = Created SYSMON_OK \<or> c = Created SYSMON_ERR_NOT_SUPPORTED)"
proof (cases rule: sysmon_create_cases [of options load_file os h])
  case early
  with hk lf cf show ?thesis by blast
next
  case no_array
  with hk show ?thesis by simp
next
  case (looped h2 s0)
  let ?ini = "fst (snd (load_file (ini_path_of options)))"
  let ?out = "init_loop sysmon_builtin_modules ?ini os None h2"
  note len = init_loop_length [of sysmon_builtin_modules ?ini os None h2]
  have bk: "set sysmon_builtin_modules \<subseteq> set known_modules" by (auto simp: known_modules_def)
  from hk looped(3) have hk2: "heap_ok h2" by simp
  note hs = init_loop_heap_ok [OF bk hk2, of ?ini os None]
  have np: "Parse_failed \<notin> set (i_creates ?out)"
  proof
    assume "Parse_failed \<in> set (i_creates ?out)"
    then obtain i where i: "i < length sysmon_builtin_modules" "i_creates ?out ! i = Parse_failed"
      by (auto simp: in_set_conv_nth len)
    with init_loop_local [OF i(1), of ?ini os None h2]
    have "\<not> snd (cfg_refresh ?ini (sysmon_builtin_modules ! i))" by simp
    with rf i(1) show False by (simp add: cfg_refresh_def mod_section_def)
  qed
  have ok: "i_rc ?out = SYSMON_OK"
  proof (rule ccontr)
    assume n: "i_rc ?out \<noteq> SYSMON_OK"
    with init_loop_rc [of sysmon_builtin_modules ?ini os None h2] np
    have "Created (i_rc ?out) \<in> set (i_creates ?out)" "i_rc ?out \<noteq> SYSMON_ERR_NOT_SUPPORTED"
      by blast+
    with hs n show False by auto
  qed
  with init_loop_rc [of sysmon_builtin_modules ?ini os None h2]
  have "set (i_creates ?out) \<subseteq> {Disabled, Created SYSMON_OK, Created SYSMON_ERR_NOT_SUPPORTED}"
    by simp
  with ok looped len show ?thesis by auto
qed

lemma create_refresh_default:
  assumes i: "i < length (cr_creates (sysmon_create options True load_file os h))"
    and v: "sysmon_ini_get (fst (snd (load_file (ini_path_of options))))
        (Some (take 127 (''module.'' @ vt_name (sysmon_builtin_modules ! i))))
        (Some ''refresh_ms'') = None \<or>
      sysmon_ini_get (fst (snd (load_file (ini_path_of options))))
        (Some (take 127 (''module.'' @ vt_name (sysmon_builtin_modules ! i))))
        (Some ''refresh_ms'') = Some []"
  shows "cr_creates (sysmon_create options True load_file os h) ! i \<noteq> Parse_failed \<and>
     (\<forall>s. cr_sysmon (sysmon_create options True load_file os h) = Some s \<longrightarrow>
        refresh_ms (sm_modules s ! i) = 0)"
proof (cases rule: sysmon_create_cases [of options load_file os h])
  case early
  with i show ?thesis by simp
next
  case no_array
  with i show ?thesis by simp
next
  case (looped h2 s0)
  let ?ini = "fst (snd (load_file (ini_path_of options)))"
  let ?out = "init_loop sysmon_builtin_modules ?ini os None h2"
  note len = init_loop_length [of sysmon_builtin_modules ?ini os None h2]
  from i looped(1) have i': "i < length sysmon_builtin_modules" by (simp add: len)
  from v have cr: "cfg_refresh ?ini (sysmon_builtin_modules ! i) = (0, True)"
    by (auto simp: cfg_refresh_def mod_section_def sysmon_ini_get_u32_def)
  note loc = init_loop_local [OF i', of ?ini os None h2]
  have a: "i_creates ?out ! i \<noteq> Parse_failed" using loc cr by auto
  have b: "refresh_ms (sm_modules s ! i) = 0"
    if s: "cr_sysmon (sysmon_create options True load_file os h) = Some s" for s
  proof -
    from s looped(4,5) have ok: "i_rc ?out = SYSMON_OK" and ms: "sm_modules s = i_modules ?out"
      by (cases "i_rc ?out = SYSMON_OK"; auto)+
    from i' have "i_creates ?out ! i \<in> set (i_creates ?out)" by (simp add: len)
    with init_loop_rc [of sysmon_builtin_modules ?ini os None h2] ok
    have "i_creates ?out ! i \<noteq> Not_reached" by auto
    with loc cr ms show ?thesis by simp
  qed
  from a b looped(1) show ?thesis by simp
qed

text \<open>
  Claim C5, as amended.  \<^const>\<open>sysmon_create\<close> returns \<^const>\<open>SYSMON_OK\<close> exactly when it
  gives an engine handle.  A module whose create returns
  \<^const>\<open>SYSMON_ERR_NOT_SUPPORTED\<close> is left disabled and the next module is reached; when
  every module was disabled by the configuration, created, or not supported,
  construction succeeds and the handle holds one instance per module, enabled exactly
  where create succeeded.  When no allocation fails, the file loads, the global
  configuration is accepted and every registered module's \<open>refresh_ms\<close> is accepted,
  construction succeeds whatever the modules' creates report.  A create that fails with
  any other code, or a \<open>refresh_ms\<close> that does not parse, ends construction with that
  code: no later module is reached, the modules destroyed are exactly those whose create
  had succeeded, and there is no handle.  A reached module whose \<open>refresh_ms\<close> value is
  non-empty and not a decimal number fails to parse, and when no allocation fails, the
  file loads and the global configuration is accepted, any such value of a registered
  module makes construction fail with \<^const>\<open>SYSMON_ERR_PARSE\<close>.  A missing or empty
  \<open>refresh_ms\<close> is accepted and the instance gets the refresh interval 0.
\<close>

theorem engine_construction:
  "((cr_rc (sysmon_create options True load_file os h) \<noteq> SYSMON_OK \<longrightarrow>
      cr_sysmon (sysmon_create options True load_file os h) = None) \<and>
   (\<forall>i. i < length (cr_creates (sysmon_create options True load_file os h)) \<longrightarrow>
      (cr_creates (sysmon_create options True load_file os h) ! i =
          Created SYSMON_ERR_NOT_SUPPORTED \<longrightarrow>
         (Suc i < length (cr_creates (sysmon_create options True load_file os h)) \<longrightarrow>
            cr_creates (sysmon_create options True load_file os h) ! Suc i \<noteq> Not_reached) \<and>
         (\<forall>s. cr_sysmon (sysmon_create options True load_file os h) = Some s \<longrightarrow>
            \<not> enabled (sm_modules s ! i))) \<and>
      (\<forall>rc. cr_creates (sysmon_create options True load_file os h) ! i = Created rc \<and>
              rc \<noteq> SYSMON_OK \<and> rc \<noteq> SYSMON_ERR_NOT_SUPPORTED \<or>
            cr_creates (sysmon_create options True load_file os h) ! i = Parse_failed \<and>
              rc = SYSMON_ERR_PARSE \<longrightarrow>
         cr_rc (sysmon_create options True load_file os h) = rc \<and>
         cr_sysmon (sysmon_create options True load_file os h) = None \<and>
         (\<forall>j. i < j \<and> j < length (cr_creates (sysmon_create options True load_file os h)) \<longrightarrow>
            cr_creates (sysmon_create options True load_file os h) ! j = Not_reached) \<and>
         cr_destroyed (sysmon_create options True load_file os h) =
           map (\<lambda>(vt, c). vt_name vt)
             (filter (\<lambda>(vt, c). c = Created SYSMON_OK)
                (zip sysmon_builtin_modules
                   (cr_creates (sysmon_create options True load_file os h))))) \<and>
      (\<forall>v. cr_creates (sysmon_create options True load_file os h) ! i \<noteq> Not_reached \<and>
            sysmon_ini_get (fst (snd (load_file (ini_path_of options))))
              (Some (take 127 (''module.'' @ vt_name (sysmon_builtin_modules ! i))))
              (Some ''refresh_ms'') = Some v \<and> v \<noteq> [] \<and> \<not> numeric_string v \<longrightarrow>
         cr_creates (sysmon_create options True load_file os h) ! i = Parse_failed)) \<and>
   (heap_ok h \<and> fst (load_file (ini_path_of options)) = SYSMON_OK \<and>
    (\<forall>h'. fst (sysmon_config_load_from_ini (fst (snd (load_file (ini_path_of options)))) h') =
       SYSMON_OK) \<and>
    (\<exists>i < length sysmon_builtin_modules. \<exists>v.
       sysmon_ini_get (fst (snd (load_file (ini_path_of options))))
         (Some (take 127 (''module.'' @ vt_name (sysmon_builtin_modules ! i))))
         (Some ''refresh_ms'') = Some v \<and> v \<noteq> [] \<and> \<not> numeric_string v) \<longrightarrow>
      cr_rc (sysmon_create options True load_file os h) = SYSMON_ERR_PARSE \<and>
      cr_sysmon (sysmon_create options True load_file os h) = None)) \<and>
   (cr_rc (sysmon_create options True load_file os h) = SYSMON_OK \<longleftrightarrow>
      cr_sysmon (sysmon_create options True load_file os h) \<noteq> None) \<and>
   (cr_creates (sysmon_create options True load_file os h) \<noteq> [] \<and>
    (\<forall>c \<in> set (cr_creates (sysmon_create options True load_file os h)).
       c = Disabled \<or> c = Created SYSMON_OK \<or> c = Created SYSMON_ERR_NOT_SUPPORTED) \<longrightarrow>
      cr_rc (sysmon_create options True load_file os h) = SYSMON_OK \<and>
      (\<exists>s. cr_sysmon (sysmon_create options True load_file os h) = Some s \<and>
         length (sm_modules s) = length (cr_creates (sysmon_create options True load_file os h)) \<and>
         (\<forall>i < length (sm_modules s).
            enabled (sm_modules s ! i) \<longleftrightarrow>
              cr_creates (sysmon_create options True load_file os h) ! i = Created SYSMON_OK))) \<and>
   (heap_ok h \<and> fst (load_file (ini_path_of options)) = SYSMON_OK \<and>
    (\<forall>h'. fst (sysmon_config_load_from_ini (fst (snd (load_file (ini_path_of options)))) h') = SYSMON_OK) \<and>
    (\<forall>i < length sysmon_builtin_modules.
       snd (sysmon_ini_get_u32 (fst (snd (load_file (ini_path_of options))))
         (Some (take 127 (''module.'' @ vt_name (sysmon_builtin_modules ! i))))
         (Some ''refresh_ms'') 0)) \<longrightarrow>
      cr_rc (sysmon_create options True load_file os h) = SYSMON_OK \<and>
      cr_sysmon (sysmon_create options True load_file os h) \<noteq> None \<and>
      length (cr_creates (sysmon_create options True load_file os h)) = length sysmon_builtin_modules \<and>
      (\<forall>c \<in> set (cr_creates (sysmon_create options True load_file os h)).
         c = Disabled \<or> c = Created SYSMON_OK \<or> c = Created SYSMON_ERR_NOT_SUPPORTED)) \<and>
   (\<forall>i < length (cr_creates (sysmon_create options True load_file os h)).
      sysmon_ini_get (fst (snd (load_file (ini_path_of options))))
        (Some (take 127 (''module.'' @ vt_name (sysmon_builtin_modules ! i))))
        (Some ''refresh_ms'') = None \<or>
      sysmon_ini_get (fst (snd (load_file (ini_path_of options))))
        (Some (take 127 (''module.'' @ vt_name (sysmon_builtin_modules ! i))))
        (Some ''refresh_ms'') = Some [] \<longrightarrow>
      cr_creates (sysmon_create options True load_file os h) ! i \<noteq> Parse_failed \<and>
      (\<forall>s. cr_sysmon (sysmon_create options True load_file os h) = Some s \<longrightarrow>
         refresh_ms (sm_modules s ! i) = 0))"
proof -
  note core = create_outcomes [of options load_file os h]
  note rc = create_rc_handle
      [where options=options and load_file=load_file and os=os and h=h]
  have e: "cr_creates (sysmon_create options True load_file os h) \<noteq> [] \<and>
    (\<forall>c \<in> set (cr_creates (sysmon_create options True load_file os h)).
       c = Disabled \<or> c = Created SYSMON_OK \<or> c = Created SYSMON_ERR_NOT_SUPPORTED) \<longrightarrow>
      cr_rc (sysmon_create options True load_file os h) = SYSMON_OK \<and>
      (\<exists>s. cr_sysmon (sysmon_create options True load_file os h) = Some s \<and>
         length (sm_modules s) = length (cr_creates (sysmon_create options True load_file os h)) \<and>
         (\<forall>i < length (sm_modules s).
            enabled (sm_modules s ! i) \<longleftrightarrow>
              cr_creates (sysmon_create options True load_file os h) ! i = Created SYSMON_OK))"
    using create_not_aborted
      [where options=options and load_file=load_file and os=os and h=h] by blast
  have f: "heap_ok h \<and> fst (load_file (ini_path_of options)) = SYSMON_OK \<and>
    (\<forall>h'. fst (sysmon_config_load_from_ini (fst (snd (load_file (ini_path_of options)))) h') = SYSMON_OK) \<and>
    (\<forall>i < length sysmon_builtin_modules.
       snd (sysmon_ini_get_u32 (fst (snd (load_file (ini_path_of options))))
         (Some (take 127 (''module.'' @ vt_name (sysmon_builtin_modules ! i))))
         (Some ''refresh_ms'') 0)) \<longrightarrow>
      cr_rc (sysmon_create options True load_file os h) = SYSMON_OK \<and>
      cr_sysmon (sysmon_create options True load_file os h) \<noteq> None \<and>
      length (cr_creates (sysmon_create options True load_file os h)) = length sysmon_builtin_modules \<and>
      (\<forall>c \<in> set (cr_creates (sysmon_create options True load_file os h)).
         c = Disabled \<or> c = Created SYSMON_OK \<or> c = Created SYSMON_ERR_NOT_SUPPORTED)"
    using create_succeeds
      [where options=options and load_file=load_file and os=os and h=h] by blast
  have g: "\<forall>i < length (cr_creates (sysmon_create options True load_file os h)).
      sysmon_ini_get (fst (snd (load_file (ini_path_of options))))
        (Some (take 127 (''module.'' @ vt_name (sysmon_builtin_modules ! i))))
        (Some ''refresh_ms'') = None \<or>
      sysmon_ini_get (fst (snd (load_file (ini_path_of options))))
        (Some (take 127 (''module.'' @ vt_name (sysmon_builtin_modules ! i))))
        (Some ''refresh_ms'') = Some [] \<longrightarrow>
      cr_creates (sysmon_create options True load_file os h) ! i \<noteq> Parse_failed \<and>
      (\<forall>s. cr_sysmon (sysmon_create options True load_file os h) = Some s \<longrightarrow>
         refresh_ms (sm_modules s ! i) = 0)"
    using create_refresh_default
      [where options=options and load_file=load_file and os=os and h=h] by blast
  show ?thesis by (rule conjI [OF core conjI [OF rc conjI [OF e conjI [OF f g]]]])
qed

lemma builtin_destroys [simp]:
  "vt_destroy sysmon_cpu_module" "vt_destroy sysmon_ram_module"
  "vt_destroy sysmon_battery_module" "vt_destroy sysmon_network_module"
  "vt_destroy sysmon_storage_module"
  by (simp_all add: sysmon_cpu_module_def sysmon_ram_module_def sysmon_battery_module_def
      sysmon_network_module_def sysmon_storage_module_def)

lemmas create_eval =
  sysmon_create_def init_modules_def sysmon_config_load_from_ini_def
  init_loop.simps sysmon_builtin_modules_def Let_def ini_file_def
  sysmon_ini_get_bool_def sysmon_ini_get_u32_def sysmon_ini_get_def parse_bool_def
  strtoul10_def c_isspace_def c_isdigit_def sysmon_destroy_def
  cpu_create_def ram_create_def battery_create_def network_create_def copy_ifname_def
  alloc_def os_sample_def sysmon_set_error_def sysmon_strdup_def

lemma create_refresh_text:
  "cr_creates (sysmon_create None True (ini_file ini_refresh_text) os_sample []) =
     [Created SYSMON_OK, Parse_failed, Not_reached, Not_reached]"
  "cr_destroyed (sysmon_create None True (ini_file ini_refresh_text) os_sample []) = [''cpu'']"
  "cr_rc (sysmon_create None True (ini_file ini_refresh_text) os_sample []) = SYSMON_ERR_PARSE"
  "cr_sysmon (sysmon_create None True (ini_file ini_refresh_text) os_sample []) = None"
  by (simp_all add: create_eval ini_refresh_text_def)

lemma create_refresh_empty:
  "cr_creates (sysmon_create None True (ini_file ini_refresh_empty) os_sample []) =
     [Created SYSMON_OK, Created SYSMON_OK, Created SYSMON_ERR_NOT_SUPPORTED, Created SYSMON_OK]"
  "cr_rc (sysmon_create None True (ini_file ini_refresh_empty) os_sample []) = SYSMON_OK"
  "cr_sysmon (sysmon_create None True (ini_file ini_refresh_empty) os_sample []) \<noteq> None"
  "map (\<lambda>m. enabled m)
     (sm_modules (the (cr_sysmon (sysmon_create None True (ini_file ini_refresh_empty) os_sample []))))
     = [True, True, False, True]"
  by (simp_all add: create_eval ini_refresh_empty_def)

lemma refresh_values:
  "sysmon_ini_get (Some ini_refresh_text) (Some ''module.ram'') (Some ''refresh_ms'') = Some ''abc''"
  "\<not> numeric_string ''abc''" "\<not> numeric_string ''''"
  "sysmon_ini_get (Some ini_refresh_empty) (Some ''module.cpu'') (Some ''refresh_ms'') = Some ''''"
  by (simp_all add: sysmon_ini_get_def ini_refresh_text_def ini_refresh_empty_def
      numeric_string_def c_isspace_def c_isdigit_def Let_def)

lemma create_out_of_memory:
  "cr_creates (sysmon_create None True (ini_file ini_refresh_empty) os_sample [True, True, False]) =
     [Created SYSMON_ERR_OUT_OF_MEMORY, Not_reached, Not_reached, Not_reached]"
  "cr_rc (sysmon_create None True (ini_file ini_refresh_empty) os_sample [True, True, False]) =
     SYSMON_ERR_OUT_OF_MEMORY"
  "cr_sysmon (sysmon_create None True (ini_file ini_refresh_empty) os_sample [True, True, False]) =
     None"
  "cr_destroyed (sysmon_create None True (ini_file ini_refresh_empty) os_sample
     [True, True, False]) = []"
  by (simp_all add: create_eval ini_refresh_empty_def)

lemma create_storage_text:
  "cr_rc (sysmon_create None True (ini_file ini_storage_text) os_sample []) = SYSMON_OK"
  "cr_sysmon (sysmon_create None True (ini_file ini_storage_text) os_sample []) \<noteq> None"
  "sysmon_ini_get (Some ini_storage_text) (Some ''module.storage'') (Some ''refresh_ms'') =
     Some ''abc''"
  by (simp_all add: create_eval ini_storage_text_def)

lemma create_refresh_empty_intervals:
  "map refresh_ms (sm_modules (the (cr_sysmon
       (sysmon_create None True (ini_file ini_refresh_empty) os_sample [])))) = [0, 0, 0, 0]"
  by (simp add: create_eval ini_refresh_empty_def)

theorem engine_construction_witness:
  "heap_ok [] \<and> \<not> numeric_string ''abc'' \<and>
   sysmon_ini_get (Some ini_refresh_text) (Some ''module.ram'') (Some ''refresh_ms'') =
     Some ''abc'' \<and>
   cr_creates (sysmon_create None True (ini_file ini_refresh_text) os_sample []) =
     [Created SYSMON_OK, Parse_failed, Not_reached, Not_reached] \<and>
   cr_rc (sysmon_create None True (ini_file ini_refresh_text) os_sample []) = SYSMON_ERR_PARSE \<and>
   cr_sysmon (sysmon_create None True (ini_file ini_refresh_text) os_sample []) = None \<and>
   cr_destroyed (sysmon_create None True (ini_file ini_refresh_text) os_sample []) = [''cpu''] \<and>
   sysmon_ini_get (Some ini_refresh_empty) (Some ''module.cpu'') (Some ''refresh_ms'') =
     Some '''' \<and>
   cr_creates (sysmon_create None True (ini_file ini_refresh_empty) os_sample []) =
     [Created SYSMON_OK, Created SYSMON_OK, Created SYSMON_ERR_NOT_SUPPORTED, Created SYSMON_OK] \<and>
   cr_rc (sysmon_create None True (ini_file ini_refresh_empty) os_sample []) = SYSMON_OK \<and>
   map enabled (sm_modules (the (cr_sysmon
       (sysmon_create None True (ini_file ini_refresh_empty) os_sample [])))) =
     [True, True, False, True] \<and>
   map refresh_ms (sm_modules (the (cr_sysmon
       (sysmon_create None True (ini_file ini_refresh_empty) os_sample [])))) =
     [0, 0, 0, 0] \<and>
   cr_creates (sysmon_create None True (ini_file ini_refresh_empty) os_sample
       [True, True, False]) =
     [Created SYSMON_ERR_OUT_OF_MEMORY, Not_reached, Not_reached, Not_reached] \<and>
   cr_rc (sysmon_create None True (ini_file ini_refresh_empty) os_sample [True, True, False]) =
     SYSMON_ERR_OUT_OF_MEMORY \<and>
   cr_sysmon (sysmon_create None True (ini_file ini_refresh_empty) os_sample
       [True, True, False]) = None"
  using
    engine_construction [where options=None and load_file="ini_file ini_refresh_text"
      and os=os_sample and h="[]"]
    engine_construction [where options=None and load_file="ini_file ini_refresh_empty"
      and os=os_sample and h="[]"]
    engine_construction [where options=None and load_file="ini_file ini_refresh_empty"
      and os=os_sample and h="[True, True, False]"]
  by (simp add: create_refresh_text create_refresh_empty refresh_values create_out_of_memory
      create_refresh_empty_intervals heap_ok_def)

text \<open>
  Claim C5, as stated, covers every non-numeric \<open>refresh_ms\<close>.  The empty value, which
  the line \<open>refresh_ms =\<close> yields, is not a number, yet \<^const>\<open>sysmon_ini_get_u32\<close> accepts it
  and the engine is constructed.  The value \<open>abc\<close> in the section \<open>module.storage\<close> is
  not a number either, and the engine is constructed: no registered module reads that
  section.
\<close>

theorem refresh_ms_empty_counterexample:
  "sysmon_ini_get (Some ini_refresh_empty) (Some ''module.cpu'') (Some ''refresh_ms'') =
     Some '''' \<and>
   \<not> numeric_string '''' \<and>
   cr_rc (sysmon_create None True (ini_file ini_refresh_empty) os_sample []) = SYSMON_OK \<and>
   cr_sysmon (sysmon_create None True (ini_file ini_refresh_empty) os_sample []) \<noteq> None \<and>
   cr_creates (sysmon_create None True (ini_file ini_refresh_empty) os_sample []) ! 0 =
     Created SYSMON_OK \<and>
   sysmon_ini_get (Some ini_storage_text) (Some ''module.storage'') (Some ''refresh_ms'') =
     Some ''abc'' \<and>
   \<not> numeric_string ''abc'' \<and>
   cr_rc (sysmon_create None True (ini_file ini_storage_text) os_sample []) = SYSMON_OK \<and>
   cr_sysmon (sysmon_create None True (ini_file ini_storage_text) os_sample []) \<noteq> None"
  by (simp add: create_refresh_empty refresh_values create_storage_text)

text \<open>
  Claim C2. \<^const>\<open>sysmon_builtin_modules\<close> registers \<open>cpu\<close>, \<open>ram\<close>, \<open>battery\<close> and
  \<open>network\<close>. Every engine that \<^const>\<open>sysmon_create\<close> returns holds exactly these four
  instances, in this order, and none of them is the storage module.
\<close>

theorem engine_modules:
  "map vt_name sysmon_builtin_modules = [''cpu'', ''ram'', ''battery'', ''network''] \<and>
   vt_name sysmon_storage_module = ''storage'' \<and>
   (\<forall>s. cr_sysmon (sysmon_create options out_sysmon load_file os h) = Some s \<longrightarrow>
      map (\<lambda>m. map_option vt_name (vtable m)) (sm_modules s) =
        [Some ''cpu'', Some ''ram'', Some ''battery'', Some ''network''] \<and>
      (\<forall>m \<in> set (sm_modules s). vtable m \<noteq> Some sysmon_storage_module))"
proof (intro conjI allI impI)
  show n: "map vt_name sysmon_builtin_modules = [''cpu'', ''ram'', ''battery'', ''network'']"
    by (simp add: sysmon_builtin_modules_def)
  show "vt_name sysmon_storage_module = ''storage''" by simp
  fix s
  assume s: "cr_sysmon (sysmon_create options out_sysmon load_file os h) = Some s"
  let ?ini = "fst (snd (load_file (ini_path_of options)))"
  from sysmon_create_Some [OF s] obtain cfg h2 where
    ms: "sm_modules s = i_modules (init_loop sysmon_builtin_modules ?ini os None h2)"
    and ok: "i_rc (init_loop sysmon_builtin_modules ?ini os None h2) = SYSMON_OK"
    by auto
  let ?out = "init_loop sysmon_builtin_modules ?ini os None h2"
  note len = init_loop_length [of sysmon_builtin_modules ?ini os None h2]
  have vt: "map vtable (i_modules ?out) = map Some sysmon_builtin_modules"
  proof (rule nth_equalityI)
    show "length (map vtable (i_modules ?out)) = length (map Some sysmon_builtin_modules)"
      by (simp add: len)
    fix i assume "i < length (map vtable (i_modules ?out))"
    then have i: "i < length sysmon_builtin_modules" by (simp add: len)
    then have "i_creates ?out ! i \<in> set (i_creates ?out)" by (simp add: len)
    with init_loop_rc [of sysmon_builtin_modules ?ini os None h2] ok
    have "i_creates ?out ! i \<noteq> Not_reached" by auto
    with init_loop_local [OF i, of ?ini os None h2]
    show "map vtable (i_modules ?out) ! i = map Some sysmon_builtin_modules ! i"
      using i by (simp add: len)
  qed
  have "map (\<lambda>m. map_option vt_name (vtable m)) (sm_modules s) =
      map (map_option vt_name) (map vtable (sm_modules s))"
    by simp
  also have "\<dots> = map (map_option vt_name) (map Some sysmon_builtin_modules)"
    by (simp only: ms vt)
  also have "\<dots> = [Some ''cpu'', Some ''ram'', Some ''battery'', Some ''network'']"
    by (simp add: sysmon_builtin_modules_def)
  finally show names: "map (\<lambda>m. map_option vt_name (vtable m)) (sm_modules s) =
    [Some ''cpu'', Some ''ram'', Some ''battery'', Some ''network'']" .
  show "\<forall>m \<in> set (sm_modules s). vtable m \<noteq> Some sysmon_storage_module"
  proof
    fix m assume "m \<in> set (sm_modules s)"
    then have "map_option vt_name (vtable m) \<in>
        set (map (\<lambda>m. map_option vt_name (vtable m)) (sm_modules s))"
      by (simp add: image_iff) blast
    then have "map_option vt_name (vtable m) \<noteq> Some ''storage''"
      unfolding names by auto
    then show "vtable m \<noteq> Some sysmon_storage_module" by auto
  qed
qed

theorem engine_modules_witness:
  "cr_sysmon (sysmon_create None True (ini_file ini_refresh_empty) os_sample []) \<noteq> None \<and>
   map (\<lambda>m. map_option vt_name (vtable m))
     (sm_modules (the (cr_sysmon
        (sysmon_create None True (ini_file ini_refresh_empty) os_sample [])))) =
     [Some ''cpu'', Some ''ram'', Some ''battery'', Some ''network'']"
  using engine_modules [of None True "ini_file ini_refresh_empty" os_sample "[]"]
  by (auto simp: create_refresh_empty)

subsection \<open>Disabled modules\<close>

lemma sysmon_poll_cases:
  fixes s :: "'s sysmon" and out clk os h
  defines "res \<equiv> sysmon_poll (Some s) out clk os h"
    and "l \<equiv> poll_loop (sm_modules s) (fst (sysmon_now_ms clk))
          (Some \<lparr>b_metrics = [], b_capacity = 0\<rparr>) os (snd (alloc h))"
  obtains
    (skipped) "\<not> out \<or> \<not> fst (alloc h)" "r_calls res = map (\<lambda>i. None) (sm_modules s)"
      "r_sysmon res = Some s" "r_snapshot res = None" "r_clock res = clk"
      "r_rc res = (if out then SYSMON_ERR_OUT_OF_MEMORY else SYSMON_ERR_INVALID_ARGUMENT)"
  | (aborted) le where "out" "fst (alloc h)" "l_aborted l" "r_calls res = l_calls l"
      "r_clock res = snd (sysmon_now_ms clk)" "r_rc res = SYSMON_ERR_OUT_OF_MEMORY"
      "r_snapshot res = None"
      "r_sysmon res = Some (s\<lparr>sm_modules := l_modules l, sm_last_error := le\<rparr>)"
  | (finished) "out" "fst (alloc h)" "\<not> l_aborted l" "r_calls res = l_calls l"
      "r_clock res = snd (sysmon_now_ms clk)"
      "r_sysmon res = Some (s\<lparr>sm_modules := l_modules l\<rparr>)"
      "r_rc res = fst (sysmon_snapshot_builder_finalize (l_builder l) (l_heap l))"
      "r_snapshot res = fst (snd (snd (sysmon_snapshot_builder_finalize (l_builder l) (l_heap l))))"
proof -
  obtain ok h1 where al: "alloc h = (ok, h1)" by (cases "alloc h") auto
  obtain t clk1 where nw: "sysmon_now_ms clk = (t, clk1)" by (cases "sysmon_now_ms clk") auto
  consider (a) "\<not> out" | (b) "out" "\<not> fst (alloc h)" | (c) "out" "fst (alloc h)" "l_aborted l"
    | (d) "out" "fst (alloc h)" "\<not> l_aborted l" by blast
  then show ?thesis
  proof cases
    case a
    show ?thesis by (rule skipped) (use a in \<open>simp_all add: res_def sysmon_poll_def\<close>)
  next
    case b
    show ?thesis
      by (rule skipped)
         (use b al in \<open>simp_all add: res_def sysmon_poll_def sysmon_snapshot_builder_create_def\<close>)
  next
    case c
    obtain le h2 where le: "sysmon_set_error
        (Some (case l_error l of None \<Rightarrow> ''out of memory'' | Some e \<Rightarrow> e)) (l_heap l) = (le, h2)"
      by (cases "sysmon_set_error
        (Some (case l_error l of None \<Rightarrow> ''out of memory'' | Some e \<Rightarrow> e)) (l_heap l)") auto
    show ?thesis
      by (rule aborted [of le])
         (use c le al nw in \<open>simp_all add: res_def l_def sysmon_poll_def
            sysmon_snapshot_builder_create_def Let_def\<close>)
  next
    case d
    show ?thesis
      by (rule finished)
         (use d al nw in \<open>simp_all add: res_def l_def sysmon_poll_def
            sysmon_snapshot_builder_create_def Let_def split: prod.splits\<close>)
  qed
qed

lemma poll_loop_filter:
  "l_aborted (poll_loop (filter enabled ms) now_ms b os h) = l_aborted (poll_loop ms now_ms b os h) \<and>
   l_error (poll_loop (filter enabled ms) now_ms b os h) = l_error (poll_loop ms now_ms b os h) \<and>
   l_builder (poll_loop (filter enabled ms) now_ms b os h) = l_builder (poll_loop ms now_ms b os h) \<and>
   l_heap (poll_loop (filter enabled ms) now_ms b os h) = l_heap (poll_loop ms now_ms b os h)"
proof (induction ms arbitrary: b h)
  case Nil
  show ?case by simp
next
  case (Cons inst rest)
  show ?case
  proof (cases "enabled inst")
    case False
    then show ?thesis using Cons.IH [of b h] by (simp add: Let_def)
  next
    case True
    then show ?thesis using Cons.IH by (simp add: Let_def split: prod.splits)
  qed
qed

lemma module_poll_shape:
  fixes st now_ms rd b os h
  defines "out \<equiv> module_poll st now_ms rd (Some b) os h"
  obtains
    (failed) st' where "p_rc out \<noteq> SYSMON_OK" "p_rc out \<noteq> SYSMON_ERR_OUT_OF_MEMORY"
      "p_builder out = Some b" "p_state out = Some st'" "module_of st' = module_of st"
      "st' = st" "rd \<or> \<not> has_sample st"
  | (emitted) st' where "module_of st' = module_of st" "p_state out = Some st'"
      "p_rc out = fst (apply_adds (module_adds st') (Some b) h)"
      "p_builder out = fst (snd (apply_adds (module_adds st') (Some b) h))"
      "p_heap out = snd (snd (apply_adds (module_adds st') (Some b) h))"
      "p_error out = None"
proof (cases st)
  case (Cpu_state c)
  show ?thesis
  proof (cases "(rd \<or> \<not> has_prev c) \<and> isl (os_cpu_ticks os)")
    case True
    show ?thesis
      by (rule failed [of st])
         (use True Cpu_state in \<open>auto simp: out_def module_poll_simps cpu_poll_def isl_def\<close>)
  next
    case False
    then consider (r) t i where "rd \<or> \<not> has_prev c" "os_cpu_ticks os = Inr (t, i)"
      | (k) "\<not> rd" "has_prev c"
      by (cases "os_cpu_ticks os") auto
    then show ?thesis
    proof cases
      case r
      show ?thesis
        by (rule emitted [of "Cpu_state (cpu_refresh c t i)"])
           (use r Cpu_state in \<open>auto simp: out_def module_poll_simps cpu_poll_def Let_def\<close>)
    next
      case k
      show ?thesis
        by (rule emitted [of st])
           (use k Cpu_state in \<open>auto simp: out_def module_poll_simps cpu_poll_def Let_def\<close>)
    qed
  qed
next
  case (Ram_state c)
  show ?thesis
  proof (cases "(rd \<or> \<not> ram_has_data c) \<and> isl (os_mem_used_free os (total_bytes c))")
    case True
    show ?thesis
      by (rule failed [of st])
         (use True Ram_state in \<open>auto simp: out_def module_poll_simps ram_poll_def isl_def\<close>)
  next
    case False
    then consider (r) u f where "rd \<or> \<not> ram_has_data c"
        "os_mem_used_free os (total_bytes c) = Inr (u, f)"
      | (k) "\<not> rd" "ram_has_data c"
      by (cases "os_mem_used_free os (total_bytes c)") auto
    then show ?thesis
    proof cases
      case r
      show ?thesis
        by (rule emitted [of "Ram_state (ram_refresh c u f)"])
           (use r Ram_state in \<open>auto simp: out_def module_poll_simps ram_poll_def Let_def\<close>)
    next
      case k
      show ?thesis
        by (rule emitted [of st])
           (use k Ram_state in \<open>auto simp: out_def module_poll_simps ram_poll_def Let_def\<close>)
    qed
  qed
next
  case (Battery_state c)
  let ?cap = "os_u32_file os (take 319 (base_path c @ ''/capacity''))"
  show ?thesis
  proof (cases "(rd \<or> \<not> bat_has_data c) \<and> ?cap = None")
    case True
    show ?thesis
      by (rule failed [of st])
         (use True Battery_state in \<open>auto simp: out_def module_poll_simps battery_poll_def\<close>)
  next
    case False
    then consider (r) cap where "rd \<or> \<not> bat_has_data c" "?cap = Some cap"
      | (k) "\<not> rd" "bat_has_data c"
      by (cases ?cap) auto
    then show ?thesis
    proof cases
      case r
      show ?thesis
        by (rule emitted [of "Battery_state (battery_refresh c cap
              (os_string_file os (take 319 (base_path c @ ''/status''))))"])
           (use r Battery_state in \<open>auto simp: out_def module_poll_simps battery_poll_def Let_def\<close>)
    next
      case k
      show ?thesis
        by (rule emitted [of st])
           (use k Battery_state in \<open>auto simp: out_def module_poll_simps battery_poll_def Let_def\<close>)
    qed
  qed
next
  case (Network_state c)
  let ?rd = "os_interface_bytes os (Some (ifname c)) (include_loopback c)"
  show ?thesis
  proof (cases "(rd \<or> \<not> net_has_data c) \<and> isl ?rd")
    case True
    show ?thesis
      by (rule failed [of st])
         (use True Network_state in \<open>auto simp: out_def module_poll_simps network_poll_def isl_def\<close>)
  next
    case False
    then consider (r) rx tx sel where "rd \<or> \<not> net_has_data c" "?rd = Inr (rx, tx, sel)"
      | (k) "\<not> rd" "net_has_data c"
      by (cases ?rd) auto
    then show ?thesis
    proof cases
      case r
      show ?thesis
        by (rule emitted [of "Network_state (network_refresh c now_ms rx tx)"])
           (use r Network_state in \<open>auto simp: out_def module_poll_simps network_poll_def Let_def\<close>)
    next
      case k
      show ?thesis
        by (rule emitted [of st])
           (use k Network_state in \<open>auto simp: out_def module_poll_simps network_poll_def Let_def\<close>)
    qed
  qed
next
  case (Storage_state c)
  let ?rd = "os_storage_stats os (path c)"
  show ?thesis
  proof (cases "(rd \<or> \<not> sto_has_data c) \<and> isl ?rd")
    case True
    show ?thesis
      by (rule failed [of st])
         (use True Storage_state in \<open>auto simp: out_def module_poll_simps storage_poll_def isl_def\<close>)
  next
    case False
    then consider (r) t f a where "rd \<or> \<not> sto_has_data c" "?rd = Inr (t, f, a)"
      | (k) "\<not> rd" "sto_has_data c"
      by (cases ?rd) auto
    then show ?thesis
    proof cases
      case r
      show ?thesis
        by (rule emitted [of "Storage_state (storage_refresh c t f a)"])
           (use r Storage_state in \<open>auto simp: out_def module_poll_simps storage_poll_def Let_def\<close>)
    next
      case k
      show ?thesis
        by (rule emitted [of st])
           (use k Storage_state in \<open>auto simp: out_def module_poll_simps storage_poll_def Let_def\<close>)
    qed
  qed
qed

lemma left_by_name: "left_by a m \<Longrightarrow> m_name m = m_name (added_metric a)"
  by (auto simp: left_by_def)

lemma name_starts_cong: "m_name m = m_name m' \<Longrightarrow> name_starts p m = name_starts p m'"
  by (simp add: name_starts_def)

lemma module_adds_names:
  "a \<in> set (module_adds st) \<Longrightarrow> name_starts (vt_name (module_of st) @ ''.'') (added_metric a)"
  by (cases st)
     (auto simp: cpu_adds_def ram_adds_def battery_adds_def network_adds_def storage_adds_def
        name_starts_def sysmon_cpu_module_def sysmon_ram_module_def sysmon_battery_module_def
        sysmon_network_module_def sysmon_storage_module_def split: if_splits)

lemma apply_add_rc:
  "fst (apply_add a (Some b) h) = SYSMON_OK \<or> fst (apply_add a (Some b) h) = SYSMON_ERR_OUT_OF_MEMORY"
  by (cases a)
     (auto simp: sysmon_snapshot_builder_add_double_def sysmon_snapshot_builder_add_i64_def
        sysmon_snapshot_builder_add_u64_def sysmon_snapshot_builder_add_string_def
        add_common_def ensure_capacity_def Let_def split: prod.splits if_splits option.splits)

lemma apply_adds_rc:
  "fst (apply_adds adds (Some b) h) = SYSMON_OK \<or>
   fst (apply_adds adds (Some b) h) = SYSMON_ERR_OUT_OF_MEMORY"
proof (induction adds arbitrary: b h)
  case Nil
  show ?case by simp
next
  case (Cons a adds)
  obtain rc b' h' where a: "apply_add a (Some b) h = (rc, b', h')"
    by (cases "apply_add a (Some b) h") auto
  from apply_add_any [OF a] obtain b1 where b1: "b' = Some b1" by blast
  from apply_add_rc [of a b h] a have "rc = SYSMON_OK \<or> rc = SYSMON_ERR_OUT_OF_MEMORY" by simp
  then show ?case using a b1 Cons.IH [of b1 h'] by auto
qed

lemma module_poll_builder:
  "\<exists>b' ms. p_builder (module_poll st now_ms rd (Some b) os h) = Some b' \<and>
      b_metrics b' = b_metrics b @ ms \<and>
      (\<forall>m \<in> set ms. name_starts (vt_name (module_of st) @ ''.'') m) \<and>
      (p_rc (module_poll st now_ms rd (Some b) os h) \<noteq> SYSMON_OK \<and>
       p_rc (module_poll st now_ms rd (Some b) os h) \<noteq> SYSMON_ERR_OUT_OF_MEMORY \<longrightarrow> ms = [])"
proof (cases rule: module_poll_shape [of st now_ms rd b os h])
  case (failed st')
  then show ?thesis by simp
next
  case (emitted st')
  obtain rc b' h' where aa: "apply_adds (module_adds st') (Some b) h = (rc, b', h')"
    by (cases "apply_adds (module_adds st') (Some b) h") auto
  from apply_adds_any [OF aa] obtain b1 ms where b1: "b' = Some b1"
    "b_metrics b1 = b_metrics b @ ms" "length ms \<le> length (module_adds st')"
    "list_all2 left_by (take (length ms) (module_adds st')) ms"
    "rc = SYSMON_OK \<longrightarrow> ms = map added_metric (module_adds st')"
    by blast
  have names: "\<forall>m \<in> set ms. name_starts (vt_name (module_of st) @ ''.'') m"
  proof
    fix m assume "m \<in> set ms"
    then obtain i where i: "i < length ms" "m = ms ! i" by (auto simp: in_set_conv_nth)
    with b1(3,4) have lb: "left_by (take (length ms) (module_adds st') ! i) m"
      by (auto simp: list_all2_conv_all_nth)
    from i b1(3) have mem: "take (length ms) (module_adds st') ! i \<in> set (module_adds st')"
      by (metis in_set_takeD length_take min.absorb2 nth_mem)
    from module_adds_names [OF mem] emitted(1) left_by_name [OF lb]
    show "name_starts (vt_name (module_of st) @ ''.'') m"
      by (simp add: name_starts_def)
  qed
  have rc: "rc = SYSMON_OK \<or> rc = SYSMON_ERR_OUT_OF_MEMORY"
    using apply_adds_rc [of "module_adds st'" b h] aa by simp
  show ?thesis using emitted aa b1 names rc by auto
qed

lemma add_module_error_builder:
  "\<exists>b1 ms. fst (add_module_error (Some b) n msg h) = Some b1 \<and>
      b_metrics b1 = b_metrics b @ ms \<and> (\<forall>m \<in> set ms. m_name m = Some (error_name n))"
proof -
  let ?a = "Add_string (error_name n) None (Some msg)"
  obtain rc b' h' where a: "apply_add ?a (Some b) h = (rc, b', h')"
    by (cases "apply_add ?a (Some b) h") auto
  from apply_add_any [OF a] obtain b1 where b1: "b' = Some b1"
    "rc \<noteq> SYSMON_OK \<and> b_metrics b1 = b_metrics b \<or>
     (\<exists>m. b_metrics b1 = b_metrics b @ [m] \<and> left_by ?a m)"
    by blast
  have f: "fst (add_module_error (Some b) n msg h) = Some b1"
    using a b1(1) by (simp add: add_module_error_def error_name_def)
  from b1(2) show ?thesis
  proof
    assume "rc \<noteq> SYSMON_OK \<and> b_metrics b1 = b_metrics b"
    with f show ?thesis by simp
  next
    assume "\<exists>m. b_metrics b1 = b_metrics b @ [m] \<and> left_by ?a m"
    then obtain m where m: "b_metrics b1 = b_metrics b @ [m]" "left_by ?a m" by blast
    from left_by_name [OF m(2)] have "m_name m = Some (error_name n)" by simp
    with f m(1) show ?thesis by simp
  qed
qed

lemma poll_loop_builder:
  assumes "list_all (\<lambda>m. enabled m \<longrightarrow>
      (\<exists>st. mod_state m = Some st \<and> vtable m = Some (module_of st))) ms"
  shows "\<exists>b' new. l_builder (poll_loop ms now_ms (Some b) os h) = Some b' \<and>
      b_metrics b' = b_metrics b @ new \<and>
      (\<forall>m \<in> set new. \<exists>inst \<in> set ms. enabled inst \<and>
          from_module (vt_name (the (vtable inst))) m)"
  using assms
proof (induction ms arbitrary: b h)
  case Nil
  show ?case by simp
next
  case (Cons inst rest)
  then have rest: "list_all (\<lambda>m. enabled m \<longrightarrow>
      (\<exists>st. mod_state m = Some st \<and> vtable m = Some (module_of st))) rest" by simp
  note IH = Cons.IH [OF rest]
  show ?case
  proof (cases "enabled inst")
    case False
    from IH [of b h] obtain b' new where
      "l_builder (poll_loop rest now_ms (Some b) os h) = Some b'"
      "b_metrics b' = b_metrics b @ new"
      "\<forall>m \<in> set new. \<exists>inst \<in> set rest. enabled inst \<and> from_module (vt_name (the (vtable inst))) m"
      by blast
    with False show ?thesis by (auto simp: Let_def)
  next
    case True
    with Cons.prems obtain st where st: "mod_state inst = Some st" "vtable inst = Some (module_of st)"
      by auto
    let ?rd = "refresh_due inst now_ms"
    let ?out = "module_poll st now_ms ?rd (Some b) os h"
    have call: "the (vt_poll (the (vtable inst))) (mod_state inst) now_ms ?rd (Some b) os h = ?out"
      by (simp add: st module_poll_def)
    from module_poll_builder [of st now_ms ?rd b os h] obtain b1 ms where b1:
      "p_builder ?out = Some b1" "b_metrics b1 = b_metrics b @ ms"
      "\<forall>m \<in> set ms. name_starts (vt_name (module_of st) @ ''.'') m"
      by blast
    have own: "\<forall>m \<in> set ms. \<exists>i \<in> set (inst # rest). enabled i \<and>
        from_module (vt_name (the (vtable i))) m"
      using b1(3) True st by (auto simp: from_module_def)
    consider (ok) "p_rc ?out = SYSMON_OK" | (oom) "p_rc ?out = SYSMON_ERR_OUT_OF_MEMORY"
      | (err) "p_rc ?out \<noteq> SYSMON_OK" "p_rc ?out \<noteq> SYSMON_ERR_OUT_OF_MEMORY" by blast
    then show ?thesis
    proof cases
      case ok
      from IH [of b1 "p_heap ?out"] obtain b' new where n:
        "l_builder (poll_loop rest now_ms (Some b1) os (p_heap ?out)) = Some b'"
        "b_metrics b' = b_metrics b1 @ new"
        "\<forall>m \<in> set new. \<exists>inst \<in> set rest. enabled inst \<and> from_module (vt_name (the (vtable inst))) m"
        by blast
      have "l_builder (poll_loop (inst # rest) now_ms (Some b) os h) = Some b'"
        using True st ok n(1) b1(1) by (simp add: module_poll_def [symmetric] Let_def)
      moreover have "b_metrics b' = b_metrics b @ (ms @ new)" using n(2) b1(2) by simp
      moreover have "\<forall>m \<in> set (ms @ new). \<exists>i \<in> set (inst # rest). enabled i \<and>
          from_module (vt_name (the (vtable i))) m"
        using own n(3) by auto
      ultimately show ?thesis by blast
    next
      case oom
      have "l_builder (poll_loop (inst # rest) now_ms (Some b) os h) = Some b1"
        using True st oom b1(1) by (simp add: module_poll_def [symmetric] Let_def)
      with b1(2) own show ?thesis by blast
    next
      case err
      let ?nm = "vt_name (module_of st)"
      let ?msg = "case p_error ?out of None \<Rightarrow> ''module error'' | Some e \<Rightarrow> e"
      obtain be he where ame: "add_module_error (Some b1) ?nm ?msg (p_heap ?out) = (be, he)"
        by (cases "add_module_error (Some b1) ?nm ?msg (p_heap ?out)") auto
      from add_module_error_builder [of b1 ?nm ?msg "p_heap ?out"] ame
      obtain b2 es where b2: "be = Some b2" "b_metrics b2 = b_metrics b1 @ es"
        "\<forall>m \<in> set es. m_name m = Some (error_name ?nm)"
        by auto
      from IH [of b2 he] obtain b' new where n:
        "l_builder (poll_loop rest now_ms (Some b2) os he) = Some b'"
        "b_metrics b' = b_metrics b2 @ new"
        "\<forall>m \<in> set new. \<exists>inst \<in> set rest. enabled inst \<and> from_module (vt_name (the (vtable inst))) m"
        by blast
      have "l_builder (poll_loop (inst # rest) now_ms (Some b) os h) = Some b'"
        using True st err n(1) b1(1) ame b2(1) by (simp add: module_poll_def [symmetric] Let_def)
      moreover have "b_metrics b' = b_metrics b @ (ms @ es @ new)" using n(2) b1(2) b2(2) by simp
      moreover have "\<forall>m \<in> set es. \<exists>i \<in> set (inst # rest). enabled i \<and>
          from_module (vt_name (the (vtable i))) m"
        using b2(3) True st by (auto simp: from_module_def)
      then have "\<forall>m \<in> set (ms @ es @ new). \<exists>i \<in> set (inst # rest). enabled i \<and>
          from_module (vt_name (the (vtable i))) m"
        using own n(3) by auto
      ultimately show ?thesis by blast
    qed
  qed
qed

lemma take_clash:
  assumes "take k n = p" "take j n = q"
  shows "take (min k j) p = take (min k j) q"
proof -
  have "take (min k j) p = take (min k j) n" using assms(1) by (auto simp: min_def)
  moreover have "take (min k j) q = take (min k j) n" using assms(2) by (auto simp: min_def)
  ultimately show ?thesis by simp
qed

lemma not_battery:
  assumes "from_module (vt_name (module_of st)) m" "vt_name (module_of st) \<noteq> ''battery''"
  shows "\<not> name_starts ''battery'' m"
proof
  assume b: "name_starts ''battery'' m"
  then obtain n where n: "m_name m = Some n" "take 7 n = ''battery''"
    by (auto simp: name_starts_def eval_nat_numeral split: option.splits)
  from assms(1) n(1) consider (own) "take (length (vt_name (module_of st) @ ''.'')) n =
      vt_name (module_of st) @ ''.''"
    | (err) "n = error_name (vt_name (module_of st))"
    by (auto simp: from_module_def name_starts_def)
  then show False
  proof cases
    case own
    from take_clash [OF own n(2)] assms(2) show False by (cases st) simp_all
  next
    case err
    with n(2) show False by (cases st) (simp_all add: error_name_def)
  qed
qed

lemma engine_inv_instances:
  assumes "engine_inv s"
  shows "list_all (\<lambda>m. enabled m \<longrightarrow>
      (\<exists>st. mod_state m = Some st \<and> vtable m = Some (module_of st))) (sm_modules s)"
  using assms by (auto simp: engine_inv_def instance_inv_def list_all_iff)

lemma finalize_snapshot:
  "fst (snd (snd (sysmon_snapshot_builder_finalize (Some b) h))) = Some snap \<Longrightarrow>
   s_metrics snap = b_metrics b"
  by (auto simp: sysmon_snapshot_builder_finalize_def split: prod.splits if_splits)

lemma snapshot_provenance:
  fixes s :: "module_state sysmon"
  assumes inv: "engine_inv s"
    and snap: "r_snapshot (sysmon_poll (Some s) out clk os h) = Some snap"
    and m: "m \<in> set (s_metrics snap)"
  shows "\<exists>inst \<in> set (sm_modules s). enabled inst \<and> from_module (vt_name (the (vtable inst))) m"
proof (cases rule: sysmon_poll_cases [where s=s and out=out and clk=clk and os=os and h=h])
  case skipped
  with snap show ?thesis by simp
next
  case (aborted le)
  with snap show ?thesis by simp
next
  case finished
  let ?l = "poll_loop (sm_modules s) (fst (sysmon_now_ms clk))
      (Some \<lparr>b_metrics = [], b_capacity = 0\<rparr>) os (snd (alloc h))"
  from poll_loop_builder [OF engine_inv_instances [OF inv],
      of "fst (sysmon_now_ms clk)" "\<lparr>b_metrics = [], b_capacity = 0\<rparr>" os "snd (alloc h)"]
  obtain b' new where b': "l_builder ?l = Some b'" "b_metrics b' = new"
    "\<forall>m \<in> set new. \<exists>inst \<in> set (sm_modules s). enabled inst \<and>
        from_module (vt_name (the (vtable inst))) m"
    by auto
  from finished(8) snap b'(1)
  have "fst (snd (snd (sysmon_snapshot_builder_finalize (Some b') (l_heap ?l)))) = Some snap"
    by simp
  then have "s_metrics snap = b_metrics b'" by (rule finalize_snapshot)
  with m b'(2,3) show ?thesis by simp
qed

text \<open>
  Claim C4.  In every poll round of every engine state, a module whose \<open>enabled\<close> flag
  is false has no call of its \<^verbatim>\<open>poll\<close> and is left as it was, and the snapshot and the
  result code of the round are those of the same engine without its disabled modules:
  nothing in the snapshot is produced by a disabled module.  In an engine made by
  \<^const>\<open>sysmon_create\<close> and polled any number of times, every metric of a snapshot is one
  of an enabled module (its name starts with that module's name and a dot, or is that
  module's error metric), and when \<^verbatim>\<open>enabled\<close> of \<^verbatim>\<open>[module.battery]\<close> reads as false no
  metric of a snapshot has a name that starts with \<^verbatim>\<open>battery\<close>.
\<close>

theorem disabled_module_not_polled:
  fixes s :: "module_state sysmon"
  shows
  "(\<forall>i < length (sm_modules s). \<not> enabled (sm_modules s ! i) \<longrightarrow>
       r_calls (sysmon_poll (Some s) out clk os h) ! i = None \<and>
       (\<forall>s'. r_sysmon (sysmon_poll (Some s) out clk os h) = Some s' \<longrightarrow>
           sm_modules s' ! i = sm_modules s ! i)) \<and>
   r_snapshot (sysmon_poll (Some s) out clk os h) =
     r_snapshot (sysmon_poll (Some (s\<lparr>sm_modules := filter enabled (sm_modules s)\<rparr>)) out clk os h) \<and>
   r_rc (sysmon_poll (Some s) out clk os h) =
     r_rc (sysmon_poll (Some (s\<lparr>sm_modules := filter enabled (sm_modules s)\<rparr>)) out clk os h) \<and>
   (engine_reachable s \<longrightarrow>
      (\<forall>snap m. r_snapshot (sysmon_poll (Some s) out clk os h) = Some snap \<and>
          m \<in> set (s_metrics snap) \<longrightarrow>
        (\<exists>inst \<in> set (sm_modules s). enabled inst \<and>
            from_module (vt_name (the (vtable inst))) m) \<and>
        (\<not> sysmon_ini_get_bool (sm_ini s) (Some ''module.battery'') (Some ''enabled'') True \<longrightarrow>
           \<not> name_starts ''battery'' m)))"
  (is "?A \<and> ?S \<and> ?R \<and> ?E")
proof -
  let ?res = "sysmon_poll (Some s) out clk os h"
  let ?s2 = "s\<lparr>sm_modules := filter enabled (sm_modules s)\<rparr>"
  let ?l = "poll_loop (sm_modules s) (fst (sysmon_now_ms clk))
      (Some \<lparr>b_metrics = [], b_capacity = 0\<rparr>) os (snd (alloc h))"
  let ?l2 = "poll_loop (filter enabled (sm_modules s)) (fst (sysmon_now_ms clk))
      (Some \<lparr>b_metrics = [], b_capacity = 0\<rparr>) os (snd (alloc h))"
  note flt = poll_loop_filter [of "sm_modules s" "fst (sysmon_now_ms clk)"
      "Some \<lparr>b_metrics = [], b_capacity = 0\<rparr>" os "snd (alloc h)"]
  have A: ?A
  proof (intro allI impI)
    fix i assume i: "i < length (sm_modules s)" and d: "\<not> enabled (sm_modules s ! i)"
    show "r_calls ?res ! i = None \<and>
       (\<forall>s'. r_sysmon ?res = Some s' \<longrightarrow> sm_modules s' ! i = sm_modules s ! i)"
    proof (cases rule: sysmon_poll_cases [where s=s and out=out and clk=clk and os=os and h=h])
      case skipped
      with i show ?thesis by simp
    next
      case (aborted le)
      from poll_loop_nth [OF i, of "fst (sysmon_now_ms clk)"
          "Some \<lparr>b_metrics = [], b_capacity = 0\<rparr>" os "snd (alloc h)"] d
      have "l_calls ?l ! i = None" "l_modules ?l ! i = sm_modules s ! i"
        by (auto simp: module_step_def)
      with aborted show ?thesis by simp
    next
      case finished
      from poll_loop_nth [OF i, of "fst (sysmon_now_ms clk)"
          "Some \<lparr>b_metrics = [], b_capacity = 0\<rparr>" os "snd (alloc h)"] d
      have "l_calls ?l ! i = None" "l_modules ?l ! i = sm_modules s ! i"
        by (auto simp: module_step_def)
      with finished show ?thesis by simp
    qed
  qed
  have SR: "?S \<and> ?R"
  proof (cases rule: sysmon_poll_cases [where s=s and out=out and clk=clk and os=os and h=h])
    case skipped
    then show ?thesis
      by (cases rule: sysmon_poll_cases [where s="?s2" and out=out and clk=clk and os=os and h=h]) auto
  next
    case (aborted le)
    then show ?thesis using flt
      by (cases rule: sysmon_poll_cases [where s="?s2" and out=out and clk=clk and os=os and h=h]) auto
  next
    case finished
    then show ?thesis using flt
      by (cases rule: sysmon_poll_cases [where s="?s2" and out=out and clk=clk and os=os and h=h]) auto
  qed
  have E: ?E
  proof (intro impI allI, elim conjE)
    fix snap m
    assume r: "engine_reachable s" and snap: "r_snapshot ?res = Some snap"
      and m: "m \<in> set (s_metrics snap)"
    from engine_reachable_inv [OF r] have inv: "engine_inv s" .
    from snapshot_provenance [OF inv snap m] obtain inst where inst:
      "inst \<in> set (sm_modules s)" "enabled inst" "from_module (vt_name (the (vtable inst))) m"
      by blast
    from inv inst(1,2) obtain st where st: "mod_state inst = Some st"
      "vtable inst = Some (module_of st)"
      "sysmon_ini_get_bool (sm_ini s) (Some (take 127 (''module.'' @ vt_name (module_of st))))
          (Some ''enabled'') True"
      by (auto simp: engine_inv_def instance_inv_def list_all_iff)
    have "\<not> name_starts ''battery'' m"
      if off: "\<not> sysmon_ini_get_bool (sm_ini s) (Some ''module.battery'') (Some ''enabled'') True"
    proof (rule not_battery [of st])
      show "from_module (vt_name (module_of st)) m" using inst(3) st(2) by simp
      show "vt_name (module_of st) \<noteq> ''battery''"
      proof
        assume "vt_name (module_of st) = ''battery''"
        with st(3) off show False by simp
      qed
    qed
    with inst show "(\<exists>inst \<in> set (sm_modules s). enabled inst \<and>
            from_module (vt_name (the (vtable inst))) m) \<and>
        (\<not> sysmon_ini_get_bool (sm_ini s) (Some ''module.battery'') (Some ''enabled'') True \<longrightarrow>
           \<not> name_starts ''battery'' m)"
      by blast
  qed
  from A SR E show ?thesis by blast
qed

subsection \<open>A poll round, module by module\<close>

lemma emit_frame:
  assumes "heap_ok h"
  shows "p_rc (emit st adds b h) = SYSMON_OK \<and> p_state (emit st adds b h) = Some st \<and>
     p_error (emit st adds b h) = None \<and> heap_ok (p_heap (emit st adds b h)) \<and>
     (\<exists>b'. p_builder (emit st adds b h) = Some b' \<and>
        b_metrics b' = b_metrics b @ map added_metric adds)"
proof -
  obtain rc b' h' where a: "apply_adds adds (Some b) h = (rc, b', h')"
    by (cases "apply_adds adds (Some b) h") auto
  from apply_adds_heap_ok [OF assms a] have ok: "rc = SYSMON_OK" "heap_ok h'" by simp_all
  from apply_adds_ok [OF a [unfolded ok(1)]] obtain b1 where
    "b' = Some b1" "b_metrics b1 = b_metrics b @ map added_metric adds" by blast
  with a ok show ?thesis by (simp add: emit_def)
qed

lemma apply_adds_frame:
  assumes "heap_ok h"
  shows "fst (apply_adds adds (Some b) h) = SYSMON_OK"
    and "heap_ok (snd (snd (apply_adds adds (Some b) h)))"
    and "\<exists>b'. fst (snd (apply_adds adds (Some b) h)) = Some b' \<and>
        b_metrics b' = b_metrics b @ map added_metric adds"
  using emit_frame [OF assms, of st adds b] by simp_all

lemma read_failed_frame:
  assumes "heap_ok h"
  shows "p_rc (read_failed rc st b err fb h) = rc \<and>
     p_state (read_failed rc st b err fb h) = Some st \<and>
     p_builder (read_failed rc st b err fb h) = Some b \<and>
     p_error (read_failed rc st b err fb h) = Some (case err of None \<Rightarrow> fb | Some e \<Rightarrow> e) \<and>
     heap_ok (p_heap (read_failed rc st b err fb h))"
proof -
  let ?m = "case err of None \<Rightarrow> fb | Some e \<Rightarrow> e"
  obtain c h' where s: "sysmon_strdup (Some ?m) h = (c, h')"
    by (cases "sysmon_strdup (Some ?m) h") auto
  from strdup_heap_ok [OF assms s] s show ?thesis
    by (simp add: read_failed_def sysmon_set_error_def)
qed

lemma add_module_error_frame:
  assumes "heap_ok h"
  shows "\<exists>b1 h'. add_module_error (Some b) n msg h = (Some b1, h') \<and> heap_ok h' \<and>
     b_metrics b1 = b_metrics b @ [error_metric n msg]"
proof -
  let ?a = "Add_string (error_name n) None (Some msg)"
  obtain rc b' h' where a: "apply_adds [?a] (Some b) h = (rc, b', h')"
    by (cases "apply_adds [?a] (Some b) h") auto
  from apply_adds_heap_ok [OF assms a] have ok: "rc = SYSMON_OK" "heap_ok h'" by simp_all
  from apply_adds_ok [OF a [unfolded ok(1)]] obtain b1 where b1:
    "b' = Some b1" "b_metrics b1 = b_metrics b @ map added_metric [?a]" by blast
  from a ok(1) b1(1) have "sysmon_snapshot_builder_add_string (Some b) (Some (error_name n)) None
      (Some msg) h = (SYSMON_OK, Some b1, h')"
    by (auto split: prod.splits if_splits)
  then have "add_module_error (Some b) n msg h = (Some b1, h')"
    by (simp add: add_module_error_def error_name_def)
  with ok(2) b1(2) show ?thesis by (simp add: error_metric_def)
qed

lemma module_poll_outcome:
  fixes st now_ms rd os
  obtains
    (failed) rc msg where "rc \<noteq> SYSMON_OK" "rc \<noteq> SYSMON_ERR_OUT_OF_MEMORY"
      "rd \<or> \<not> has_sample st"
      "\<And>b h. heap_ok h \<Longrightarrow>
         p_rc (module_poll st now_ms rd (Some b) os h) = rc \<and>
         p_state (module_poll st now_ms rd (Some b) os h) = Some st \<and>
         p_builder (module_poll st now_ms rd (Some b) os h) = Some b \<and>
         p_error (module_poll st now_ms rd (Some b) os h) = Some msg \<and>
         heap_ok (p_heap (module_poll st now_ms rd (Some b) os h))"
  | (emitted) st' where "module_of st' = module_of st" "\<not> rd \<and> has_sample st \<longrightarrow> st' = st"
      "\<And>b h. heap_ok h \<Longrightarrow>
         p_rc (module_poll st now_ms rd (Some b) os h) = SYSMON_OK \<and>
         p_state (module_poll st now_ms rd (Some b) os h) = Some st' \<and>
         p_error (module_poll st now_ms rd (Some b) os h) = None \<and>
         heap_ok (p_heap (module_poll st now_ms rd (Some b) os h)) \<and>
         (\<exists>b'. p_builder (module_poll st now_ms rd (Some b) os h) = Some b' \<and>
            b_metrics b' = b_metrics b @ map added_metric (module_adds st'))"
proof (cases st)
  case (Cpu_state c)
  consider (f) e where "rd \<or> \<not> has_prev c" "os_cpu_ticks os = Inl e"
    | (r) t i where "rd \<or> \<not> has_prev c" "os_cpu_ticks os = Inr (t, i)"
    | (k) "\<not> rd" "has_prev c"
    by (cases "os_cpu_ticks os") auto
  then show ?thesis
  proof cases
    case f
    show ?thesis
      by (rule failed [of SYSMON_ERR_NOT_SUPPORTED
            "case e of None \<Rightarrow> ''failed to read cpu ticks'' | Some e \<Rightarrow> e"])
         (use f Cpu_state in \<open>auto simp: module_poll_simps cpu_poll_def read_failed_frame\<close>)
  next
    case r
    show ?thesis
      by (rule emitted [of "Cpu_state (cpu_refresh c t i)"])
         (use r Cpu_state in \<open>auto simp: module_poll_simps cpu_poll_def Let_def apply_adds_frame\<close>)
  next
    case k
    show ?thesis
      by (rule emitted [of st])
         (use k Cpu_state in \<open>auto simp: module_poll_simps cpu_poll_def Let_def apply_adds_frame\<close>)
  qed
next
  case (Ram_state c)
  let ?rd = "os_mem_used_free os (total_bytes c)"
  consider (f) e where "rd \<or> \<not> ram_has_data c" "?rd = Inl e"
    | (r) u f where "rd \<or> \<not> ram_has_data c" "?rd = Inr (u, f)"
    | (k) "\<not> rd" "ram_has_data c"
    by (cases ?rd) auto
  then show ?thesis
  proof cases
    case f
    show ?thesis
      by (rule failed [of SYSMON_ERR_NOT_SUPPORTED
            "case e of None \<Rightarrow> ''failed to read memory usage'' | Some e \<Rightarrow> e"])
         (use f Ram_state in \<open>auto simp: module_poll_simps ram_poll_def read_failed_frame\<close>)
  next
    case r
    show ?thesis
      by (rule emitted [of "Ram_state (ram_refresh c u f)"])
         (use r Ram_state in \<open>auto simp: module_poll_simps ram_poll_def Let_def apply_adds_frame\<close>)
  next
    case k
    show ?thesis
      by (rule emitted [of st])
         (use k Ram_state in \<open>auto simp: module_poll_simps ram_poll_def Let_def apply_adds_frame\<close>)
  qed
next
  case (Battery_state c)
  let ?cap = "os_u32_file os (take 319 (base_path c @ ''/capacity''))"
  consider (f) "rd \<or> \<not> bat_has_data c" "?cap = None"
    | (r) cap where "rd \<or> \<not> bat_has_data c" "?cap = Some cap"
    | (k) "\<not> rd" "bat_has_data c"
    by (cases ?cap) auto
  then show ?thesis
  proof cases
    case f
    show ?thesis
      by (rule failed [of SYSMON_ERR_NOT_SUPPORTED "''failed to read battery capacity''"])
         (use f Battery_state in \<open>auto simp: module_poll_simps battery_poll_def read_failed_frame\<close>)
  next
    case r
    show ?thesis
      by (rule emitted [of "Battery_state (battery_refresh c cap
              (os_string_file os (take 319 (base_path c @ ''/status''))))"])
         (use r Battery_state in \<open>auto simp: module_poll_simps battery_poll_def Let_def apply_adds_frame\<close>)
  next
    case k
    show ?thesis
      by (rule emitted [of st])
         (use k Battery_state in \<open>auto simp: module_poll_simps battery_poll_def Let_def apply_adds_frame\<close>)
  qed
next
  case (Network_state c)
  let ?rd = "os_interface_bytes os (Some (ifname c)) (include_loopback c)"
  consider (f) e where "rd \<or> \<not> net_has_data c" "?rd = Inl e"
    | (r) rx tx sel where "rd \<or> \<not> net_has_data c" "?rd = Inr (rx, tx, sel)"
    | (k) "\<not> rd" "net_has_data c"
    by (cases ?rd) auto
  then show ?thesis
  proof cases
    case f
    show ?thesis
      by (rule failed [of SYSMON_ERR_IO
            "case e of None \<Rightarrow> ''failed to read network counters'' | Some e \<Rightarrow> e"])
         (use f Network_state in \<open>auto simp: module_poll_simps network_poll_def read_failed_frame\<close>)
  next
    case r
    show ?thesis
      by (rule emitted [of "Network_state (network_refresh c now_ms rx tx)"])
         (use r Network_state in \<open>auto simp: module_poll_simps network_poll_def Let_def apply_adds_frame\<close>)
  next
    case k
    show ?thesis
      by (rule emitted [of st])
         (use k Network_state in \<open>auto simp: module_poll_simps network_poll_def Let_def apply_adds_frame\<close>)
  qed
next
  case (Storage_state c)
  let ?rd = "os_storage_stats os (path c)"
  consider (f) e where "rd \<or> \<not> sto_has_data c" "?rd = Inl e"
    | (r) t f a where "rd \<or> \<not> sto_has_data c" "?rd = Inr (t, f, a)"
    | (k) "\<not> rd" "sto_has_data c"
    by (cases ?rd) auto
  then show ?thesis
  proof cases
    case f
    show ?thesis
      by (rule failed [of SYSMON_ERR_IO
            "case e of None \<Rightarrow> ''failed to read storage stats'' | Some e \<Rightarrow> e"])
         (use f Storage_state in \<open>auto simp: module_poll_simps storage_poll_def read_failed_frame\<close>)
  next
    case r
    show ?thesis
      by (rule emitted [of "Storage_state (storage_refresh c t f a)"])
         (use r Storage_state in \<open>auto simp: module_poll_simps storage_poll_def Let_def apply_adds_frame\<close>)
  next
    case k
    show ?thesis
      by (rule emitted [of st])
         (use k Storage_state in \<open>auto simp: module_poll_simps storage_poll_def Let_def apply_adds_frame\<close>)
  qed
qed

lemma heap_ok_Nil [simp]: "heap_ok []"
  by (simp add: heap_ok_def)

lemma poll_loop_no_failure:
  assumes "heap_ok h"
    and "list_all (\<lambda>m. enabled m \<longrightarrow>
      (\<exists>st. mod_state m = Some st \<and> vtable m = Some (module_of st))) ms"
  shows "\<not> l_aborted (poll_loop ms now_ms (Some b) os h) \<and>
     heap_ok (l_heap (poll_loop ms now_ms (Some b) os h)) \<and>
     l_modules (poll_loop ms now_ms (Some b) os h) = map (\<lambda>m. module_after m now_ms os) ms \<and>
     l_calls (poll_loop ms now_ms (Some b) os h) = map (\<lambda>m. module_call m now_ms os) ms \<and>
     (\<exists>b'. l_builder (poll_loop ms now_ms (Some b) os h) = Some b' \<and>
        b_metrics b' = b_metrics b @ concat (map (\<lambda>m. module_metrics m now_ms os) ms))"
  using assms
proof (induction ms arbitrary: b h)
  case Nil
  then show ?case by simp
next
  case (Cons inst rest)
  then have rest: "list_all (\<lambda>m. enabled m \<longrightarrow>
      (\<exists>st. mod_state m = Some st \<and> vtable m = Some (module_of st))) rest" by simp
  show ?case
  proof (cases "enabled inst")
    case False
    from Cons.IH [OF Cons.prems(1) rest, of b] False show ?thesis
      by (auto simp: Let_def module_after_def module_call_def module_metrics_def)
  next
    case True
    with Cons.prems obtain st where st: "mod_state inst = Some st" "vtable inst = Some (module_of st)"
      by auto
    define rd where "rd = refresh_due inst now_ms"
    let ?rd = rd
    let ?out = "module_poll st now_ms ?rd (Some b) os h"
    let ?run = "module_run inst now_ms os"
    have run: "?run = module_poll st now_ms ?rd (Some \<lparr>b_metrics = [], b_capacity = 0\<rparr>) os []"
      by (simp add: module_run_def st rd_def)
    show ?thesis
    proof (cases rule: module_poll_outcome [where st=st and now_ms=now_ms and rd="?rd" and os=os])
      case (failed rc msg)
      from failed(4) [OF Cons.prems(1), of b] have o: "p_rc ?out = rc" "p_state ?out = Some st"
        "p_builder ?out = Some b" "p_error ?out = Some msg" "heap_ok (p_heap ?out)" by simp_all
      from failed(4) [of "[]" "\<lparr>b_metrics = [], b_capacity = 0\<rparr>"]
      have r: "p_rc ?run = rc" "p_state ?run = Some st" "p_error ?run = Some msg"
        unfolding run by simp_all
      from add_module_error_frame [OF o(5), of b "vt_name (module_of st)" msg]
      obtain b1 h1 where e: "add_module_error (Some b) (vt_name (module_of st)) msg (p_heap ?out) =
          (Some b1, h1)" "heap_ok h1"
        "b_metrics b1 = b_metrics b @ [error_metric (vt_name (module_of st)) msg]"
        by blast
      note IH = Cons.IH [OF e(2) rest, of b1]
      have step: "poll_loop (inst # rest) now_ms (Some b) os h =
          (poll_loop rest now_ms (Some b1) os h1)
            \<lparr>l_modules := inst\<lparr>mod_state := Some st\<rparr> #
               l_modules (poll_loop rest now_ms (Some b1) os h1),
             l_calls := Some (now_ms, ?rd, rc) #
               l_calls (poll_loop rest now_ms (Some b1) os h1)\<rparr>"
        using True st o e(1) failed(1,2)
        by (cases rd; simp add: module_poll_def [symmetric] Let_def rd_def [symmetric])
      show ?thesis unfolding step using IH e(3) True st r failed(1,2)
        by (auto simp: module_after_def module_call_def module_metrics_def rd_def [symmetric])
    next
      case (emitted st')
      from emitted(3) [OF Cons.prems(1), of b] obtain b1 where o: "p_rc ?out = SYSMON_OK"
        "p_state ?out = Some st'" "heap_ok (p_heap ?out)" "p_builder ?out = Some b1"
        "b_metrics b1 = b_metrics b @ map added_metric (module_adds st')" by auto
      from emitted(3) [of "[]" "\<lparr>b_metrics = [], b_capacity = 0\<rparr>"]
      obtain br where r: "p_rc ?run = SYSMON_OK" "p_state ?run = Some st'"
        "p_builder ?run = Some br" "b_metrics br = map added_metric (module_adds st')"
        unfolding run by auto
      note IH = Cons.IH [OF o(3) rest, of b1]
      have step: "poll_loop (inst # rest) now_ms (Some b) os h =
          (poll_loop rest now_ms (Some b1) os (p_heap ?out))
            \<lparr>l_modules := (if ?rd then inst\<lparr>mod_state := Some st', last_refresh_ms := now_ms\<rparr>
                 else inst\<lparr>mod_state := Some st'\<rparr>) #
               l_modules (poll_loop rest now_ms (Some b1) os (p_heap ?out)),
             l_calls := Some (now_ms, ?rd, SYSMON_OK) #
               l_calls (poll_loop rest now_ms (Some b1) os (p_heap ?out))\<rparr>"
        using True st o
        by (cases rd; simp add: module_poll_def [symmetric] Let_def rd_def [symmetric])
      show ?thesis unfolding step using IH o(5) True st r
        by (auto simp: module_after_def module_call_def module_metrics_def rd_def [symmetric])
    qed
  qed
qed

lemma sysmon_poll_no_failure:
  fixes s :: "module_state sysmon"
  assumes hk: "heap_ok h"
    and mods: "list_all (\<lambda>m. enabled m \<longrightarrow>
      (\<exists>st. mod_state m = Some st \<and> vtable m = Some (module_of st))) (sm_modules s)"
  shows "r_rc (sysmon_poll (Some s) True clk os h) = SYSMON_OK \<and>
     r_snapshot (sysmon_poll (Some s) True clk os h) =
       Some \<lparr>s_metrics = concat (map (\<lambda>m. module_metrics m (fst (sysmon_now_ms clk)) os)
          (sm_modules s))\<rparr> \<and>
     r_calls (sysmon_poll (Some s) True clk os h) =
       map (\<lambda>m. module_call m (fst (sysmon_now_ms clk)) os) (sm_modules s) \<and>
     r_sysmon (sysmon_poll (Some s) True clk os h) =
       Some (s\<lparr>sm_modules := map (\<lambda>m. module_after m (fst (sysmon_now_ms clk)) os)
          (sm_modules s)\<rparr>) \<and>
     r_clock (sysmon_poll (Some s) True clk os h) = snd (sysmon_now_ms clk)"
proof -
  let ?now = "fst (sysmon_now_ms clk)"
  let ?b0 = "\<lparr>b_metrics = [], b_capacity = 0\<rparr>"
  let ?l = "poll_loop (sm_modules s) ?now (Some ?b0) os (snd (alloc h))"
  obtain ok h1 where al: "alloc h = (ok, h1)" by (cases "alloc h") auto
  from alloc_heap_ok [OF hk al] have ok: "ok" "heap_ok h1" by simp_all
  from poll_loop_no_failure [OF ok(2) mods, of ?now ?b0 os] al
  obtain b' where l: "\<not> l_aborted ?l" "heap_ok (l_heap ?l)"
    "l_modules ?l = map (\<lambda>m. module_after m ?now os) (sm_modules s)"
    "l_calls ?l = map (\<lambda>m. module_call m ?now os) (sm_modules s)"
    "l_builder ?l = Some b'"
    "b_metrics b' = concat (map (\<lambda>m. module_metrics m ?now os) (sm_modules s))"
    by auto
  obtain ok2 h2 where al2: "alloc (l_heap ?l) = (ok2, h2)" by (cases "alloc (l_heap ?l)") auto
  from alloc_heap_ok [OF l(2) al2] have ok2: "ok2" by simp
  have fin: "sysmon_snapshot_builder_finalize (l_builder ?l) (l_heap ?l) =
      (SYSMON_OK, Some ?b0, Some \<lparr>s_metrics = b_metrics b'\<rparr>, h2)"
    using l(5) al2 ok2 by (simp add: sysmon_snapshot_builder_finalize_def)
  show ?thesis
  proof (cases rule: sysmon_poll_cases [where s=s and out=True and clk=clk and os=os and h=h])
    case skipped
    with al ok show ?thesis by simp
  next
    case (aborted le)
    with l(1) show ?thesis by simp
  next
    case finished
    with l fin show ?thesis by simp
  qed
qed

lemma engine_battery_off_modules:
  "cr_sysmon (sysmon_create None True (ini_file ini_battery_off) os_with_battery []) \<noteq> None"
  "sm_ini engine_battery_off = Some ini_battery_off"
  "sm_modules engine_battery_off =
        [\<lparr>vtable = Some sysmon_cpu_module,
          mod_state = Some (Cpu_state \<lparr>last_total = 0, last_idle = 0, last_usage_percent = 0,
             core_count = 4, has_prev = False\<rparr>),
          enabled = True, refresh_ms = 0, last_refresh_ms = 0\<rparr>,
         \<lparr>vtable = Some sysmon_ram_module,
          mod_state = Some (Ram_state \<lparr>total_bytes = 8000, ram_last_used_bytes = 0,
             ram_last_free_bytes = 0, ram_last_used_percent = 0, ram_has_data = False\<rparr>),
          enabled = True, refresh_ms = 0, last_refresh_ms = 0\<rparr>,
         \<lparr>vtable = Some sysmon_battery_module, mod_state = None,
          enabled = False, refresh_ms = 0, last_refresh_ms = 0\<rparr>,
         \<lparr>vtable = Some sysmon_network_module,
          mod_state = Some (Network_state \<lparr>ifname = ''eth0'', include_loopback = False,
             last_rx_bytes = 0, last_tx_bytes = 0, last_ts_ms = 0,
             last_rx_rate = 0, last_tx_rate = 0, net_has_data = False\<rparr>),
          enabled = True, refresh_ms = 0, last_refresh_ms = 0\<rparr>]"
  by (simp_all add: engine_battery_off_def create_eval ini_battery_off_def os_with_battery_def)

lemmas add_eval =
  sysmon_snapshot_builder_add_double_def sysmon_snapshot_builder_add_i64_def
  sysmon_snapshot_builder_add_u64_def sysmon_snapshot_builder_add_string_def
  add_common_def ensure_capacity_def set_last_value_def zero_value_def
  sysmon_strdup_def sysmon_set_error_def alloc_def b_count_def Let_def

lemmas run_eval =
  module_run_def module_poll_simps refresh_due_def emit_def read_failed_def lift_poll_def
  cpu_poll_def cpu_refresh_def cpu_adds_def ram_poll_def ram_refresh_def ram_adds_def
  network_poll_def network_refresh_def network_adds_def add_eval

lemma engine_battery_off_reachable: "engine_reachable engine_battery_off"
proof -
  from engine_battery_off_modules(1) obtain s where
    s: "cr_sysmon (sysmon_create None True (ini_file ini_battery_off) os_with_battery []) = Some s"
    by blast
  then have "engine_reachable s" by (rule engine_created)
  with s show ?thesis by (simp add: engine_battery_off_def)
qed

lemma engine_battery_off_round:
  "map (\<lambda>m. module_call m 5000 os_with_battery) (sm_modules engine_battery_off) =
     [Some (5000, True, SYSMON_OK), Some (5000, True, SYSMON_OK), None,
      Some (5000, True, SYSMON_OK)]"
  "map m_name (concat (map (\<lambda>m. module_metrics m 5000 os_with_battery)
      (sm_modules engine_battery_off))) =
     [Some ''cpu.usage_percent'', Some ''cpu.core_count'',
      Some ''ram.total_bytes'', Some ''ram.used_bytes'', Some ''ram.free_bytes'',
      Some ''ram.used_percent'',
      Some ''network.interface'', Some ''network.rx_bytes'', Some ''network.tx_bytes'',
      Some ''network.rx_bytes_per_sec'', Some ''network.tx_bytes_per_sec'']"
  by (simp_all add: engine_battery_off_modules module_call_def module_metrics_def run_eval
      os_with_battery_def os_sample_def)

lemma clock_seconds_now [simp]:
  "fst (sysmon_now_ms (clock_seconds t)) = t * 1000"
  "snd (sysmon_now_ms (clock_seconds t)) = (clock_seconds t)\<lparr>reads := 1\<rparr>"
  by (simp_all add: sysmon_now_ms_def clock_seconds_def)

theorem disabled_module_not_polled_witness:
  "engine_reachable engine_battery_off \<and>
   os_battery_path os_with_battery = Inr ''/sys/class/power_supply/BAT0'' \<and>
   \<not> sysmon_ini_get_bool (sm_ini engine_battery_off) (Some ''module.battery'')
       (Some ''enabled'') True \<and>
   \<not> enabled (sm_modules engine_battery_off ! 2) \<and>
   r_calls (sysmon_poll (Some engine_battery_off) True (clock_seconds 5) os_with_battery []) ! 2 =
     None \<and>
   list_all (\<lambda>m. \<not> name_starts ''battery'' m) (s_metrics (the (r_snapshot
      (sysmon_poll (Some engine_battery_off) True (clock_seconds 5) os_with_battery [])))) \<and>
   r_calls (sysmon_poll (Some engine_battery_off) True (clock_seconds 5) os_with_battery []) =
     [Some (5000, True, SYSMON_OK), Some (5000, True, SYSMON_OK), None,
      Some (5000, True, SYSMON_OK)] \<and>
   map m_name (s_metrics (the (r_snapshot
      (sysmon_poll (Some engine_battery_off) True (clock_seconds 5) os_with_battery [])))) =
     [Some ''cpu.usage_percent'', Some ''cpu.core_count'',
      Some ''ram.total_bytes'', Some ''ram.used_bytes'', Some ''ram.free_bytes'',
      Some ''ram.used_percent'',
      Some ''network.interface'', Some ''network.rx_bytes'', Some ''network.tx_bytes'',
      Some ''network.rx_bytes_per_sec'', Some ''network.tx_bytes_per_sec'']"
proof -
  let ?res = "sysmon_poll (Some engine_battery_off) True (clock_seconds 5) os_with_battery []"
  have mods: "list_all (\<lambda>m. enabled m \<longrightarrow>
      (\<exists>st. mod_state m = Some st \<and> vtable m = Some (module_of st)))
      (sm_modules engine_battery_off)"
    using engine_reachable_inv [OF engine_battery_off_reachable] by (rule engine_inv_instances)
  note round = sysmon_poll_no_failure [OF heap_ok_Nil mods, of "clock_seconds 5" os_with_battery]
  have off: "\<not> sysmon_ini_get_bool (sm_ini engine_battery_off) (Some ''module.battery'')
       (Some ''enabled'') True"
    by (simp add: engine_battery_off_modules ini_battery_off_def sysmon_ini_get_bool_def
        sysmon_ini_get_def parse_bool_def)
  have dis: "\<not> enabled (sm_modules engine_battery_off ! 2)"
    by (simp add: engine_battery_off_modules)
  have len: "2 < length (sm_modules engine_battery_off)"
    by (simp add: engine_battery_off_modules)
  have bat: "os_battery_path os_with_battery = Inr ''/sys/class/power_supply/BAT0''"
    by (simp add: os_with_battery_def)
  note used = disabled_module_not_polled [of engine_battery_off True "clock_seconds 5"
      os_with_battery "[]"]
  from used len dis have c2: "r_calls ?res ! 2 = None" by blast
  from round obtain snap where snap: "r_snapshot ?res = Some snap" by blast
  from used engine_battery_off_reachable off snap
  have "\<forall>m \<in> set (s_metrics snap). \<not> name_starts ''battery'' m" by blast
  with snap have nb: "list_all (\<lambda>m. \<not> name_starts ''battery'' m) (s_metrics (the (r_snapshot ?res)))"
    by (simp add: list_all_iff)
  have calls: "r_calls ?res =
     [Some (5000, True, SYSMON_OK), Some (5000, True, SYSMON_OK), None,
      Some (5000, True, SYSMON_OK)]"
    using round by (simp add: engine_battery_off_round)
  have names: "map m_name (s_metrics (the (r_snapshot ?res))) =
     [Some ''cpu.usage_percent'', Some ''cpu.core_count'',
      Some ''ram.total_bytes'', Some ''ram.used_bytes'', Some ''ram.free_bytes'',
      Some ''ram.used_percent'',
      Some ''network.interface'', Some ''network.rx_bytes'', Some ''network.tx_bytes'',
      Some ''network.rx_bytes_per_sec'', Some ''network.tx_bytes_per_sec'']"
    using round by (simp add: engine_battery_off_round)
  from engine_battery_off_reachable bat off dis c2 nb calls names show ?thesis by blast
qed

subsection \<open>A module poll that fails\<close>

lemma poll_loop_step_error:
  assumes "enabled inst" "vtable inst = Some vt" "vt_poll vt = Some f"
    and "f (mod_state inst) now_ms (refresh_due inst now_ms) b os h = out"
    and "p_rc out \<noteq> SYSMON_OK" "p_rc out \<noteq> SYSMON_ERR_OUT_OF_MEMORY"
    and "add_module_error (p_builder out) (vt_name vt)
           (case p_error out of None \<Rightarrow> ''module error'' | Some e \<Rightarrow> e) (p_heap out) = (b', h')"
  shows "poll_loop (inst # rest) now_ms b os h =
     (poll_loop rest now_ms b' os h')
       \<lparr>l_modules := inst\<lparr>mod_state := p_state out\<rparr> # l_modules (poll_loop rest now_ms b' os h'),
        l_calls := Some (now_ms, refresh_due inst now_ms, p_rc out) #
          l_calls (poll_loop rest now_ms b' os h')\<rparr>"
  using assms by (simp add: Let_def)

lemma cpu_unreadable_step:
  "the (vt_poll sysmon_cpu_module)
     (Some (Cpu_state \<lparr>last_total = 0, last_idle = 0, last_usage_percent = 0,
             core_count = 4, has_prev = False\<rparr>)) 5000 True
     (Some \<lparr>b_metrics = [], b_capacity = 0\<rparr>) os_cpu_unreadable [True, False] =
   \<lparr>p_rc = SYSMON_ERR_NOT_SUPPORTED,
    p_state = Some (Cpu_state \<lparr>last_total = 0, last_idle = 0, last_usage_percent = 0,
             core_count = 4, has_prev = False\<rparr>),
    p_builder = Some \<lparr>b_metrics = [], b_capacity = 0\<rparr>,
    p_error = Some ''failed to open /proc/stat'', p_heap = [False]\<rparr>"
  by (simp add: sysmon_cpu_module_def as_cpu_def lift_poll_def cpu_poll_def read_failed_def
      sysmon_set_error_def sysmon_strdup_def alloc_def os_cpu_unreadable_def
      os_with_battery_def os_sample_def)

lemma cpu_error_not_added:
  "add_module_error (Some \<lparr>b_metrics = [], b_capacity = 0\<rparr>) ''cpu''
     ''failed to open /proc/stat'' [False] = (Some \<lparr>b_metrics = [], b_capacity = 0\<rparr>, [])"
  by (simp add: add_module_error_def add_eval)

lemma rest_metrics:
  "concat (map (\<lambda>m. module_metrics m 5000 os_cpu_unreadable)
      (tl (sm_modules engine_battery_off))) = metrics_ram_network"
  by (simp add: engine_battery_off_modules module_metrics_def run_eval metrics_ram_network_def
      os_cpu_unreadable_def os_with_battery_def os_sample_def)

lemma cpu_error_metrics:
  "module_metrics (hd (sm_modules engine_battery_off)) 5000 os_cpu_unreadable =
     [error_metric ''cpu'' ''failed to open /proc/stat'']"
  "module_call (hd (sm_modules engine_battery_off)) 5000 os_cpu_unreadable =
     Some (5000, True, SYSMON_ERR_NOT_SUPPORTED)"
  by (simp_all add: engine_battery_off_modules module_metrics_def module_call_def run_eval
      os_cpu_unreadable_def os_with_battery_def os_sample_def)

lemma engine_battery_off_instances:
  "list_all (\<lambda>m. enabled m \<longrightarrow>
      (\<exists>st. mod_state m = Some st \<and> vtable m = Some (module_of st)))
      (sm_modules engine_battery_off)"
  using engine_reachable_inv [OF engine_battery_off_reachable] by (rule engine_inv_instances)

text \<open>
  Claim C3 fails when the error metric cannot be allocated.  In an engine made by
  \<^const>\<open>sysmon_create\<close>, the poll of the cpu module fails with
  \<^const>\<open>SYSMON_ERR_NOT_SUPPORTED\<close> because the tick counters cannot be read.  The heap
  serves the allocation of the builder and the copy of the module's error message, and
  refuses the next one, which is the growth of the builder's array inside
  \<^verbatim>\<open>add_module_error\<close>.  The round returns \<^const>\<open>SYSMON_OK\<close> with a snapshot that holds
  the metrics of ram and network and no \<^verbatim>\<open>module.cpu.error\<close>: \<^verbatim>\<open>add_module_error\<close> drops
  the out-of-memory result of \<^verbatim>\<open>sysmon_snapshot_builder_add_string\<close>.  On a heap that
  refuses nothing the same round puts the error metric first in the snapshot.
\<close>

theorem module_error_dropped:
  "engine_reachable engine_battery_off \<and>
   r_calls (sysmon_poll (Some engine_battery_off) True (clock_seconds 5) os_cpu_unreadable
      [True, True, False]) ! 0 = Some (5000, True, SYSMON_ERR_NOT_SUPPORTED) \<and>
   r_rc (sysmon_poll (Some engine_battery_off) True (clock_seconds 5) os_cpu_unreadable
      [True, True, False]) = SYSMON_OK \<and>
   r_snapshot (sysmon_poll (Some engine_battery_off) True (clock_seconds 5) os_cpu_unreadable
      [True, True, False]) = Some \<lparr>s_metrics = metrics_ram_network\<rparr> \<and>
   sysmon_snapshot_find (r_snapshot (sysmon_poll (Some engine_battery_off) True
      (clock_seconds 5) os_cpu_unreadable [True, True, False])) (Some ''module.cpu.error'') =
     None \<and>
   r_snapshot (sysmon_poll (Some engine_battery_off) True (clock_seconds 5) os_cpu_unreadable
      []) =
     Some \<lparr>s_metrics =
       \<lparr>m_name = Some ''module.cpu.error'', m_unit = None, m_type = SYSMON_METRIC_STRING,
        m_value = Str (Some ''failed to open /proc/stat'')\<rparr> # metrics_ram_network\<rparr>"
proof -
  let ?os = os_cpu_unreadable
  let ?b0 = "\<lparr>b_metrics = [], b_capacity = 0\<rparr>"
  let ?out = "\<lparr>p_rc = SYSMON_ERR_NOT_SUPPORTED,
    p_state = Some (Cpu_state \<lparr>last_total = 0, last_idle = 0, last_usage_percent = 0,
             core_count = 4, has_prev = False\<rparr>),
    p_builder = Some ?b0,
    p_error = Some ''failed to open /proc/stat'', p_heap = [False]\<rparr>"
  define cpu where "cpu = hd (sm_modules engine_battery_off)"
  define rest where "rest = tl (sm_modules engine_battery_off)"
  let ?cpu = cpu
  let ?rest = rest
  let ?res = "sysmon_poll (Some engine_battery_off) True (clock_seconds 5) ?os [True, True, False]"
  have ms: "sm_modules engine_battery_off = cpu # rest"
    by (simp add: cpu_def rest_def engine_battery_off_modules)
  have rest_ok: "list_all (\<lambda>m. enabled m \<longrightarrow>
      (\<exists>st. mod_state m = Some st \<and> vtable m = Some (module_of st))) rest"
    using engine_battery_off_instances unfolding ms by simp
  from poll_loop_no_failure [OF heap_ok_Nil rest_ok, of 5000 ?b0 ?os] obtain b' where
    r: "\<not> l_aborted (poll_loop rest 5000 (Some ?b0) ?os [])"
       "heap_ok (l_heap (poll_loop rest 5000 (Some ?b0) ?os []))"
       "l_builder (poll_loop rest 5000 (Some ?b0) ?os []) = Some b'"
       "b_metrics b' = metrics_ram_network"
    using rest_metrics by (auto simp: rest_def)
  have c: "enabled cpu" "vtable cpu = Some sysmon_cpu_module"
    "mod_state cpu = Some (Cpu_state \<lparr>last_total = 0, last_idle = 0, last_usage_percent = 0,
             core_count = 4, has_prev = False\<rparr>)"
    "refresh_due cpu 5000 = True"
    by (simp_all add: cpu_def engine_battery_off_modules refresh_due_def)
  have f: "vt_poll sysmon_cpu_module = Some (the (vt_poll sysmon_cpu_module))"
    by (simp add: sysmon_cpu_module_def)
  have out: "the (vt_poll sysmon_cpu_module) (mod_state cpu) 5000 (refresh_due cpu 5000)
      (Some ?b0) ?os [True, False] = ?out"
    unfolding c(3,4) by (rule cpu_unreadable_step)
  have e: "add_module_error (p_builder ?out) (vt_name sysmon_cpu_module)
      (case p_error ?out of None \<Rightarrow> ''module error'' | Some e \<Rightarrow> e) (p_heap ?out) =
      (Some ?b0, [])"
    using cpu_error_not_added by simp
  have step: "poll_loop (cpu # rest) 5000 (Some ?b0) ?os [True, False] =
      (poll_loop rest 5000 (Some ?b0) ?os [])
       \<lparr>l_modules := cpu\<lparr>mod_state := p_state ?out\<rparr> #
          l_modules (poll_loop rest 5000 (Some ?b0) ?os []),
        l_calls := Some (5000, refresh_due cpu 5000, p_rc ?out) #
          l_calls (poll_loop rest 5000 (Some ?b0) ?os [])\<rparr>"
    by (rule poll_loop_step_error [OF c(1) c(2) f out _ _ e]) simp_all
  let ?l = "poll_loop (sm_modules engine_battery_off) (fst (sysmon_now_ms (clock_seconds 5)))
      (Some ?b0) ?os (snd (alloc [True, True, False]))"
  have l: "?l = poll_loop (cpu # rest) 5000 (Some ?b0) ?os [True, False]"
    unfolding ms by (simp add: alloc_def)
  have la: "\<not> l_aborted ?l" "l_builder ?l = Some b'" "heap_ok (l_heap ?l)"
    "l_calls ?l ! 0 = Some (5000, True, SYSMON_ERR_NOT_SUPPORTED)"
    unfolding l step using r c(4) by simp_all
  obtain ok2 h2 where al2: "alloc (l_heap ?l) = (ok2, h2)" by (cases "alloc (l_heap ?l)") auto
  from alloc_heap_ok [OF la(3) al2] have ok2: "ok2" by simp
  have fin: "sysmon_snapshot_builder_finalize (l_builder ?l) (l_heap ?l) =
      (SYSMON_OK, Some ?b0, Some \<lparr>s_metrics = metrics_ram_network\<rparr>, h2)"
    using la(2) al2 ok2 r(4) by (simp add: sysmon_snapshot_builder_finalize_def)
  have bad: "r_calls ?res ! 0 = Some (5000, True, SYSMON_ERR_NOT_SUPPORTED) \<and>
      r_rc ?res = SYSMON_OK \<and> r_snapshot ?res = Some \<lparr>s_metrics = metrics_ram_network\<rparr>"
  proof (cases rule: sysmon_poll_cases [where s=engine_battery_off and out=True
        and clk="clock_seconds 5" and os="?os" and h="[True, True, False]"])
    case skipped
    then show ?thesis by (simp add: alloc_def)
  next
    case (aborted le)
    with la(1) show ?thesis by simp
  next
    case finished
    with la(4) fin show ?thesis by simp
  qed
  then have find: "sysmon_snapshot_find (r_snapshot ?res) (Some ''module.cpu.error'') = None"
    by (simp add: sysmon_snapshot_find_def metrics_ram_network_def)
  have good: "r_snapshot (sysmon_poll (Some engine_battery_off) True (clock_seconds 5) ?os []) =
     Some \<lparr>s_metrics =
       \<lparr>m_name = Some ''module.cpu.error'', m_unit = None, m_type = SYSMON_METRIC_STRING,
        m_value = Str (Some ''failed to open /proc/stat'')\<rparr> # metrics_ram_network\<rparr>"
  proof -
    have split: "sm_modules engine_battery_off =
        hd (sm_modules engine_battery_off) # tl (sm_modules engine_battery_off)"
      by (simp add: engine_battery_off_modules)
    have "concat (map (\<lambda>m. module_metrics m 5000 ?os) (sm_modules engine_battery_off)) =
        error_metric ''cpu'' ''failed to open /proc/stat'' # metrics_ram_network"
      by (subst split) (simp add: rest_metrics cpu_error_metrics)
    with sysmon_poll_no_failure [OF heap_ok_Nil engine_battery_off_instances,
        of "clock_seconds 5" ?os]
    show ?thesis by (simp add: error_metric_def error_name_def)
  qed
  from engine_battery_off_reachable bad find good show ?thesis by blast
qed

subsection \<open>Refresh intervals\<close>

lemma round_clock:
  fixes s :: "'s sysmon"
  shows "(fst (alloc h) \<longrightarrow>
       r_clock (sysmon_poll (Some s) True clk os h) = snd (sysmon_now_ms clk) \<and>
       reads (r_clock (sysmon_poll (Some s) True clk os h)) = Suc (reads clk)) \<and>
     (\<not> fst (alloc h) \<longrightarrow>
       r_clock (sysmon_poll (Some s) True clk os h) = clk \<and>
       r_rc (sysmon_poll (Some s) True clk os h) = SYSMON_ERR_OUT_OF_MEMORY \<and>
       r_snapshot (sysmon_poll (Some s) True clk os h) = None)"
proof (cases rule: sysmon_poll_cases [where s=s and out=True and clk=clk and os=os and h=h])
  case skipped
  then show ?thesis by simp
next
  case (aborted le)
  then show ?thesis by (simp add: sysmon_now_ms_def)
next
  case finished
  then show ?thesis by (simp add: sysmon_now_ms_def)
qed

lemma refresh_due_nat_all:
  assumes "last_refresh_ms m \<le> now_ms"
  shows "refresh_due m now_ms \<longleftrightarrow>
     refresh_ms m = 0 \<or> last_refresh_ms m = 0 \<or>
     unat (refresh_ms m) \<le> unat now_ms - unat (last_refresh_ms m)"
proof (cases "refresh_ms m = 0 \<or> last_refresh_ms m = 0")
  case True
  then show ?thesis by (auto simp: refresh_due_def)
next
  case False
  with refresh_due_nat [of m now_ms] assms show ?thesis by simp
qed

lemma round_calls:
  fixes s :: "'s sysmon"
  assumes i: "i < length (sm_modules s)"
  shows "length (r_calls (sysmon_poll (Some s) True clk os h)) = length (sm_modules s) \<and>
     (\<forall>t rd rc. r_calls (sysmon_poll (Some s) True clk os h) ! i = Some (t, rd, rc) \<longrightarrow>
        t = fst (sysmon_now_ms clk) \<and>
        rd = refresh_due (sm_modules s ! i) (fst (sysmon_now_ms clk)) \<and>
        enabled (sm_modules s ! i)) \<and>
     (r_snapshot (sysmon_poll (Some s) True clk os h) \<noteq> None \<and> enabled (sm_modules s ! i) \<and>
      vtable (sm_modules s ! i) \<noteq> None \<and> vt_poll (the (vtable (sm_modules s ! i))) \<noteq> None \<longrightarrow>
        r_calls (sysmon_poll (Some s) True clk os h) ! i \<noteq> None) \<and>
     (\<forall>s'. r_sysmon (sysmon_poll (Some s) True clk os h) = Some s' \<longrightarrow>
        length (sm_modules s') = length (sm_modules s) \<and>
        enabled (sm_modules s' ! i) = enabled (sm_modules s ! i) \<and>
        refresh_ms (sm_modules s' ! i) = refresh_ms (sm_modules s ! i) \<and>
        vtable (sm_modules s' ! i) = vtable (sm_modules s ! i) \<and>
        last_refresh_ms (sm_modules s' ! i) =
          (if r_calls (sysmon_poll (Some s) True clk os h) ! i =
                Some (fst (sysmon_now_ms clk), True, SYSMON_OK)
           then fst (sysmon_now_ms clk) else last_refresh_ms (sm_modules s ! i)))"
proof -
  let ?now = "fst (sysmon_now_ms clk)"
  let ?b0 = "Some \<lparr>b_metrics = [], b_capacity = 0\<rparr>"
  let ?l = "poll_loop (sm_modules s) ?now ?b0 os (snd (alloc h))"
  note len = poll_loop_length [of "sm_modules s" ?now ?b0 os "snd (alloc h)"]
  note nth = poll_loop_nth [OF i, of ?now ?b0 os "snd (alloc h)"]
  have loop: "length (l_calls ?l) = length (sm_modules s) \<and>
     (\<forall>t rd rc. l_calls ?l ! i = Some (t, rd, rc) \<longrightarrow>
        t = ?now \<and> rd = refresh_due (sm_modules s ! i) ?now \<and> enabled (sm_modules s ! i)) \<and>
     length (l_modules ?l) = length (sm_modules s) \<and>
     enabled (l_modules ?l ! i) = enabled (sm_modules s ! i) \<and>
     refresh_ms (l_modules ?l ! i) = refresh_ms (sm_modules s ! i) \<and>
     vtable (l_modules ?l ! i) = vtable (sm_modules s ! i) \<and>
     last_refresh_ms (l_modules ?l ! i) =
       (if l_calls ?l ! i = Some (?now, True, SYSMON_OK)
        then ?now else last_refresh_ms (sm_modules s ! i))"
    using len nth by (cases "l_calls ?l ! i") (auto simp: module_step_def split: if_splits)
  show ?thesis
  proof (cases rule: sysmon_poll_cases [where s=s and out=True and clk=clk and os=os and h=h])
    case skipped
    with i show ?thesis by simp
  next
    case (aborted le)
    with loop show ?thesis by simp
  next
    case finished
    have called: "enabled (sm_modules s ! i) \<and> vtable (sm_modules s ! i) \<noteq> None \<and>
        vt_poll (the (vtable (sm_modules s ! i))) \<noteq> None \<longrightarrow> l_calls ?l ! i \<noteq> None"
      using poll_loop_called [OF finished(3) i] by blast
    from finished loop called show ?thesis by simp
  qed
qed

lemma poll_loop_cached_state:
  assumes mods: "list_all (\<lambda>m. enabled m \<longrightarrow>
      (\<exists>st. mod_state m = Some st \<and> vtable m = Some (module_of st) \<and>
         (last_refresh_ms m \<noteq> 0 \<longrightarrow> has_sample st))) ms"
    and i: "i < length ms"
    and c: "l_calls (poll_loop ms now_ms (Some b) os h) ! i = Some (t, False, rc)"
  shows "mod_state (l_modules (poll_loop ms now_ms (Some b) os h) ! i) = mod_state (ms ! i) \<and>
     (\<exists>st. mod_state (ms ! i) = Some st \<and> has_sample st)"
  using assms
proof (induction ms arbitrary: i b h)
  case Nil
  then show ?case by simp
next
  case (Cons inst rest)
  then have rest: "list_all (\<lambda>m. enabled m \<longrightarrow>
      (\<exists>st. mod_state m = Some st \<and> vtable m = Some (module_of st) \<and>
         (last_refresh_ms m \<noteq> 0 \<longrightarrow> has_sample st))) rest" by simp
  show ?case
  proof (cases "enabled inst")
    case False
    show ?thesis
    proof (cases i)
      case 0
      with Cons.prems(3) False show ?thesis by (simp add: Let_def)
    next
      case (Suc k)
      with Cons.prems(2,3) False Cons.IH [OF rest, of k b h] show ?thesis
        by (simp add: Let_def)
    qed
  next
    case True
    with Cons.prems(1) obtain st where st: "mod_state inst = Some st"
      "vtable inst = Some (module_of st)" "last_refresh_ms inst \<noteq> 0 \<longrightarrow> has_sample st"
      by auto
    define rd where "rd = refresh_due inst now_ms"
    let ?out = "module_poll st now_ms rd (Some b) os h"
    from module_poll_builder [of st now_ms rd b os h] obtain b1 where b1:
      "p_builder ?out = Some b1" by blast
    obtain be he where ame: "add_module_error (Some b1) (vt_name (module_of st))
        (case p_error ?out of None \<Rightarrow> ''module error'' | Some e \<Rightarrow> e) (p_heap ?out) = (be, he)"
      by (cases "add_module_error (Some b1) (vt_name (module_of st))
        (case p_error ?out of None \<Rightarrow> ''module error'' | Some e \<Rightarrow> e) (p_heap ?out)") auto
    from add_module_error_builder [of b1 "vt_name (module_of st)" _ "p_heap ?out"] ame
    obtain b2 where b2: "be = Some b2" by (metis fst_conv)
    consider (ok) "p_rc ?out = SYSMON_OK" | (oom) "p_rc ?out = SYSMON_ERR_OUT_OF_MEMORY"
      | (err) "p_rc ?out \<noteq> SYSMON_OK" "p_rc ?out \<noteq> SYSMON_ERR_OUT_OF_MEMORY" by blast
    then show ?thesis
    proof cases
      case ok
      have step: "poll_loop (inst # rest) now_ms (Some b) os h =
          (poll_loop rest now_ms (Some b1) os (p_heap ?out))
            \<lparr>l_modules := (if rd then inst\<lparr>mod_state := p_state ?out, last_refresh_ms := now_ms\<rparr>
                 else inst\<lparr>mod_state := p_state ?out\<rparr>) #
               l_modules (poll_loop rest now_ms (Some b1) os (p_heap ?out)),
             l_calls := Some (now_ms, rd, SYSMON_OK) #
               l_calls (poll_loop rest now_ms (Some b1) os (p_heap ?out))\<rparr>"
        using True st ok b1
        by (cases rd; simp add: module_poll_def [symmetric] Let_def rd_def [symmetric])
      show ?thesis
      proof (cases i)
        case 0
        with Cons.prems(3) have nrd: "\<not> rd" unfolding step by simp
        then have "last_refresh_ms inst \<noteq> 0" by (auto simp: rd_def refresh_due_def)
        with st(3) have hs: "has_sample st" by simp
        from module_poll_cached [OF hs, of now_ms b os h] nrd have "p_state ?out = Some st" by simp
        with 0 nrd st hs show ?thesis unfolding step by simp
      next
        case (Suc k)
        with Cons.prems(2,3) Cons.IH [OF rest, of k b1 "p_heap ?out"] show ?thesis
          unfolding step by simp
      qed
    next
      case oom
      have step: "poll_loop (inst # rest) now_ms (Some b) os h =
          \<lparr>l_aborted = True, l_error = p_error ?out,
           l_modules = inst\<lparr>mod_state := p_state ?out\<rparr> # rest,
           l_builder = p_builder ?out, l_heap = p_heap ?out,
           l_calls = Some (now_ms, rd, SYSMON_ERR_OUT_OF_MEMORY) # map (\<lambda>i. None) rest\<rparr>"
        using True st oom
        by (cases rd; simp add: module_poll_def [symmetric] Let_def rd_def [symmetric])
      show ?thesis
      proof (cases i)
        case 0
        with Cons.prems(3) have nrd: "\<not> rd" unfolding step by simp
        then have "last_refresh_ms inst \<noteq> 0" by (auto simp: rd_def refresh_due_def)
        with st(3) have hs: "has_sample st" by simp
        from module_poll_cached [OF hs, of now_ms b os h] nrd have "p_state ?out = Some st" by simp
        with 0 nrd st hs show ?thesis unfolding step by simp
      next
        case (Suc k)
        with Cons.prems(2,3) show ?thesis unfolding step by simp
      qed
    next
      case err
      have step: "poll_loop (inst # rest) now_ms (Some b) os h =
          (poll_loop rest now_ms (Some b2) os he)
            \<lparr>l_modules := inst\<lparr>mod_state := p_state ?out\<rparr> #
               l_modules (poll_loop rest now_ms (Some b2) os he),
             l_calls := Some (now_ms, rd, p_rc ?out) #
               l_calls (poll_loop rest now_ms (Some b2) os he)\<rparr>"
        using True st err b1 ame b2
        by (cases rd; simp add: module_poll_def [symmetric] Let_def rd_def [symmetric])
      show ?thesis
      proof (cases i)
        case 0
        with Cons.prems(3) have nrd: "\<not> rd" unfolding step by simp
        then have "last_refresh_ms inst \<noteq> 0" by (auto simp: rd_def refresh_due_def)
        with st(3) have hs: "has_sample st" by simp
        from module_poll_cached [OF hs, of now_ms b os h] nrd have "p_state ?out = Some st" by simp
        with 0 nrd st hs show ?thesis unfolding step by simp
      next
        case (Suc k)
        with Cons.prems(2,3) Cons.IH [OF rest, of k b2 he] show ?thesis
          unfolding step by simp
      qed
    qed
  qed
qed

lemma engine_inv_samples:
  assumes "engine_inv s"
  shows "list_all (\<lambda>m. enabled m \<longrightarrow>
      (\<exists>st. mod_state m = Some st \<and> vtable m = Some (module_of st) \<and>
         (last_refresh_ms m \<noteq> 0 \<longrightarrow> has_sample st))) (sm_modules s)"
  using assms by (auto simp: engine_inv_def instance_inv_def list_all_iff)

lemma round_cached:
  fixes s :: "module_state sysmon"
  assumes r: "engine_reachable s" and i: "i < length (sm_modules s)"
    and c: "r_calls (sysmon_poll (Some s) True clk os h) ! i =
        Some (fst (sysmon_now_ms clk), False, rc)"
  shows "\<exists>st. mod_state (sm_modules s ! i) = Some st \<and> has_sample st \<and>
     (\<forall>s'. r_sysmon (sysmon_poll (Some s) True clk os h) = Some s' \<longrightarrow>
        mod_state (sm_modules s' ! i) = Some st) \<and>
     (\<forall>t' os' b h'. module_poll st (fst (sysmon_now_ms clk)) False (Some b) os h' =
        module_poll st t' False (Some b) os' h')"
proof -
  let ?now = "fst (sysmon_now_ms clk)"
  let ?b0 = "\<lparr>b_metrics = [], b_capacity = 0\<rparr>"
  let ?l = "poll_loop (sm_modules s) ?now (Some ?b0) os (snd (alloc h))"
  note mods = engine_inv_samples [OF engine_reachable_inv [OF r]]
  have loop: "r_calls (sysmon_poll (Some s) True clk os h) = l_calls ?l \<and>
      (\<forall>s'. r_sysmon (sysmon_poll (Some s) True clk os h) = Some s' \<longrightarrow>
         sm_modules s' = l_modules ?l)"
  proof (cases rule: sysmon_poll_cases [where s=s and out=True and clk=clk and os=os and h=h])
    case skipped
    with i c show ?thesis by simp
  next
    case (aborted le)
    then show ?thesis by simp
  next
    case finished
    then show ?thesis by simp
  qed
  with c have c': "l_calls ?l ! i = Some (?now, False, rc)" by simp
  from poll_loop_cached_state [OF mods i c'] obtain st where
    st: "mod_state (l_modules ?l ! i) = mod_state (sm_modules s ! i)"
      "mod_state (sm_modules s ! i) = Some st" "has_sample st"
    by blast
  have ind: "\<forall>t' os' b h'. module_poll st ?now False (Some b) os h' =
        module_poll st t' False (Some b) os' h'"
    using module_poll_cached [OF st(3)] by blast
  from st loop ind show ?thesis by auto
qed

lemma round_values:
  fixes s :: "module_state sysmon"
  assumes r: "engine_reachable s" and hk: "heap_ok h"
  shows "r_rc (sysmon_poll (Some s) True clk os h) = SYSMON_OK \<and>
     r_snapshot (sysmon_poll (Some s) True clk os h) =
       Some \<lparr>s_metrics = concat (map (\<lambda>m. module_metrics m (fst (sysmon_now_ms clk)) os)
          (sm_modules s))\<rparr> \<and>
     (\<forall>i < length (sm_modules s). \<forall>rd.
        r_calls (sysmon_poll (Some s) True clk os h) ! i =
          Some (fst (sysmon_now_ms clk), rd, SYSMON_OK) \<longrightarrow>
        (\<exists>st'. (\<forall>s'. r_sysmon (sysmon_poll (Some s) True clk os h) = Some s' \<longrightarrow>
                  mod_state (sm_modules s' ! i) = Some st') \<and>
           module_metrics (sm_modules s ! i) (fst (sysmon_now_ms clk)) os =
             map added_metric (module_adds st')))"
proof -
  let ?now = "fst (sysmon_now_ms clk)"
  note mods = engine_inv_instances [OF engine_reachable_inv [OF r]]
  note round = sysmon_poll_no_failure [OF hk mods, of clk os]
  have vals: "\<forall>i < length (sm_modules s). \<forall>rd.
        r_calls (sysmon_poll (Some s) True clk os h) ! i = Some (?now, rd, SYSMON_OK) \<longrightarrow>
        (\<exists>st'. (\<forall>s'. r_sysmon (sysmon_poll (Some s) True clk os h) = Some s' \<longrightarrow>
                  mod_state (sm_modules s' ! i) = Some st') \<and>
           module_metrics (sm_modules s ! i) ?now os = map added_metric (module_adds st'))"
  proof (intro allI impI)
    fix i rd
    assume i: "i < length (sm_modules s)"
      and c: "r_calls (sysmon_poll (Some s) True clk os h) ! i = Some (?now, rd, SYSMON_OK)"
    let ?m = "sm_modules s ! i"
    from c round i have mc: "module_call ?m ?now os = Some (?now, rd, SYSMON_OK)" by simp
    then have en: "enabled ?m" and ok: "p_rc (module_run ?m ?now os) = SYSMON_OK"
      by (auto simp: module_call_def split: if_splits)
    from mods i en obtain st where st: "mod_state ?m = Some st"
      by (auto simp: list_all_length)
    have run: "module_run ?m ?now os = module_poll st ?now (refresh_due ?m ?now)
        (Some \<lparr>b_metrics = [], b_capacity = 0\<rparr>) os []"
      by (simp add: module_run_def st)
    have "\<exists>st'. p_state (module_run ?m ?now os) = Some st' \<and>
        b_metrics (the (p_builder (module_run ?m ?now os))) = map added_metric (module_adds st')"
    proof (cases rule: module_poll_outcome [where st=st and now_ms="?now"
          and rd="refresh_due ?m ?now" and os=os])
      case (failed rc msg)
      from failed(4) [of "[]" "\<lparr>b_metrics = [], b_capacity = 0\<rparr>"] failed(1) ok
      show ?thesis unfolding run by simp
    next
      case (emitted st')
      from emitted(3) [of "[]" "\<lparr>b_metrics = [], b_capacity = 0\<rparr>"]
      show ?thesis unfolding run by auto
    qed
    then obtain st' where st': "p_state (module_run ?m ?now os) = Some st'"
      "b_metrics (the (p_builder (module_run ?m ?now os))) = map added_metric (module_adds st')"
      by blast
    have "module_metrics ?m ?now os = map added_metric (module_adds st')"
      using en ok st'(2) by (simp add: module_metrics_def)
    moreover have "mod_state (module_after ?m ?now os) = Some st'"
      using en st'(1) by (simp add: module_after_def)
    ultimately show "\<exists>st'. (\<forall>s'. r_sysmon (sysmon_poll (Some s) True clk os h) = Some s' \<longrightarrow>
                  mod_state (sm_modules s' ! i) = Some st') \<and>
           module_metrics ?m ?now os = map added_metric (module_adds st')"
      using round i by auto
  qed
  from round vals show ?thesis by blast
qed

text \<open>
  Claim C1, as amended.  A poll round that asks for a snapshot reads the clock exactly
  once when the builder of the round is allocated, and not at all otherwise (the round
  then returns \<^const>\<open>SYSMON_ERR_OUT_OF_MEMORY\<close> and no snapshot).  Every call of a
  module's \<^verbatim>\<open>poll\<close> gets that one \<open>now\<close> and the module's \<^const>\<open>refresh_due\<close>, and only
  enabled modules are called; a round that yields a snapshot has called every enabled
  module that has a \<^verbatim>\<open>poll\<close>.  \<^const>\<open>refresh_due\<close> holds exactly when \<open>refresh_ms\<close> is
  0, or \<open>last_refresh_ms\<close> is 0, or \<open>now - last_refresh_ms\<close> (64 bits, wrapping) is at
  least \<open>refresh_ms\<close>; when \<open>last_refresh_ms\<close> is not after \<open>now\<close> the difference is the
  elapsed time.  The round keeps \<open>enabled\<close>, \<open>refresh_ms\<close> and the table entry of every
  module, and sets \<open>last_refresh_ms\<close> to \<open>now\<close> exactly when \<^verbatim>\<open>poll\<close> was called with
  \<^const>\<open>refresh_due\<close> true and returned \<^const>\<open>SYSMON_OK\<close>.  In an engine made by
  \<^const>\<open>sysmon_create\<close> and polled any number of times, a call with \<^const>\<open>refresh_due\<close>
  false finds a sample in the module's state, leaves the state as it was, and has an
  outcome that depends neither on the time nor on what the platform reports: the
  source is not read.  When no allocation fails, such a round returns
  \<^const>\<open>SYSMON_OK\<close>, its snapshot is the metrics of its modules in order, and the metrics
  of a module whose \<^verbatim>\<open>poll\<close> returned \<^const>\<open>SYSMON_OK\<close> are those of the state the round
  leaves; rounds that do not refresh a module therefore repeat its values.  A module
  with \<open>refresh_ms = 0\<close> is due in every round.  ``No prior refresh'' is
  \<open>last_refresh_ms = 0\<close>, so a module last refreshed at \<open>now = 0\<close> is due again in the
  next round whatever its \<open>refresh_ms\<close>.
\<close>

theorem poll_round_refresh:
  fixes s :: "module_state sysmon"
  shows
  "((fst (alloc h) \<longrightarrow>
       r_clock (sysmon_poll (Some s) True clk os h) = snd (sysmon_now_ms clk) \<and>
       reads (r_clock (sysmon_poll (Some s) True clk os h)) = Suc (reads clk)) \<and>
    (\<not> fst (alloc h) \<longrightarrow>
       r_clock (sysmon_poll (Some s) True clk os h) = clk \<and>
       r_rc (sysmon_poll (Some s) True clk os h) = SYSMON_ERR_OUT_OF_MEMORY \<and>
       r_snapshot (sysmon_poll (Some s) True clk os h) = None)) \<and>
   length (r_calls (sysmon_poll (Some s) True clk os h)) = length (sm_modules s) \<and>
   (\<forall>i < length (sm_modules s).
      (\<forall>t rd rc. r_calls (sysmon_poll (Some s) True clk os h) ! i = Some (t, rd, rc) \<longrightarrow>
         t = fst (sysmon_now_ms clk) \<and> rd = refresh_due (sm_modules s ! i) (fst (sysmon_now_ms clk)) \<and> enabled (sm_modules s ! i)) \<and>
      (r_snapshot (sysmon_poll (Some s) True clk os h) \<noteq> None \<and> enabled (sm_modules s ! i) \<and>
       vtable (sm_modules s ! i) \<noteq> None \<and> vt_poll (the (vtable (sm_modules s ! i))) \<noteq> None \<longrightarrow>
         r_calls (sysmon_poll (Some s) True clk os h) ! i \<noteq> None) \<and>
      (refresh_due (sm_modules s ! i) (fst (sysmon_now_ms clk)) \<longleftrightarrow>
         refresh_ms (sm_modules s ! i) = 0 \<or> last_refresh_ms (sm_modules s ! i) = 0 \<or>
         ucast (refresh_ms (sm_modules s ! i)) \<le> fst (sysmon_now_ms clk) - last_refresh_ms (sm_modules s ! i)) \<and>
      (last_refresh_ms (sm_modules s ! i) \<le> fst (sysmon_now_ms clk) \<longrightarrow>
         (refresh_due (sm_modules s ! i) (fst (sysmon_now_ms clk)) \<longleftrightarrow>
            refresh_ms (sm_modules s ! i) = 0 \<or> last_refresh_ms (sm_modules s ! i) = 0 \<or>
            unat (refresh_ms (sm_modules s ! i)) \<le> unat (fst (sysmon_now_ms clk)) - unat (last_refresh_ms (sm_modules s ! i)))) \<and>
      (\<forall>s'. r_sysmon (sysmon_poll (Some s) True clk os h) = Some s' \<longrightarrow>
         length (sm_modules s') = length (sm_modules s) \<and>
         enabled (sm_modules s' ! i) = enabled (sm_modules s ! i) \<and>
         refresh_ms (sm_modules s' ! i) = refresh_ms (sm_modules s ! i) \<and>
         vtable (sm_modules s' ! i) = vtable (sm_modules s ! i) \<and>
         last_refresh_ms (sm_modules s' ! i) =
           (if r_calls (sysmon_poll (Some s) True clk os h) ! i = Some (fst (sysmon_now_ms clk), True, SYSMON_OK)
            then fst (sysmon_now_ms clk) else last_refresh_ms (sm_modules s ! i)))) \<and>
   (engine_reachable s \<longrightarrow>
      (\<forall>i < length (sm_modules s). \<forall>rc.
         r_calls (sysmon_poll (Some s) True clk os h) ! i = Some (fst (sysmon_now_ms clk), False, rc) \<longrightarrow>
         (\<exists>st. mod_state (sm_modules s ! i) = Some st \<and> has_sample st \<and>
            (\<forall>s'. r_sysmon (sysmon_poll (Some s) True clk os h) = Some s' \<longrightarrow>
               mod_state (sm_modules s' ! i) = Some st) \<and>
            (\<forall>t' os' b h'. module_poll st (fst (sysmon_now_ms clk)) False (Some b) os h' =
               module_poll st t' False (Some b) os' h')))) \<and>
   (engine_reachable s \<and> heap_ok h \<longrightarrow>
      r_rc (sysmon_poll (Some s) True clk os h) = SYSMON_OK \<and>
      r_snapshot (sysmon_poll (Some s) True clk os h) =
        Some \<lparr>s_metrics = concat (map (\<lambda>m. module_metrics m (fst (sysmon_now_ms clk)) os) (sm_modules s))\<rparr> \<and>
      (\<forall>i < length (sm_modules s). \<forall>rd.
         r_calls (sysmon_poll (Some s) True clk os h) ! i = Some (fst (sysmon_now_ms clk), rd, SYSMON_OK) \<longrightarrow>
         (\<exists>st'. (\<forall>s'. r_sysmon (sysmon_poll (Some s) True clk os h) = Some s' \<longrightarrow>
                   mod_state (sm_modules s' ! i) = Some st') \<and>
            module_metrics (sm_modules s ! i) (fst (sysmon_now_ms clk)) os = map added_metric (module_adds st'))))"
  (is "?clock \<and> ?len \<and> ?each \<and> ?cached \<and> ?vals")
proof -
  have clock: ?clock by (rule round_clock)
  have len: ?len
  proof (cases rule: sysmon_poll_cases [where s=s and out=True and clk=clk and os=os and h=h])
    case skipped
    then show ?thesis by simp
  next
    case (aborted le)
    then show ?thesis by (simp add: poll_loop_length)
  next
    case finished
    then show ?thesis by (simp add: poll_loop_length)
  qed
  have each: ?each
  proof (intro allI impI)
    fix i assume i: "i < length (sm_modules s)"
    note rc = round_calls [OF i, of clk os h]
    have due: "refresh_due (sm_modules s ! i) (fst (sysmon_now_ms clk)) \<longleftrightarrow>
         refresh_ms (sm_modules s ! i) = 0 \<or> last_refresh_ms (sm_modules s ! i) = 0 \<or>
         ucast (refresh_ms (sm_modules s ! i)) \<le> fst (sysmon_now_ms clk) - last_refresh_ms (sm_modules s ! i)"
      by (simp add: refresh_due_def)
    have nat: "last_refresh_ms (sm_modules s ! i) \<le> fst (sysmon_now_ms clk) \<longrightarrow>
         (refresh_due (sm_modules s ! i) (fst (sysmon_now_ms clk)) \<longleftrightarrow>
            refresh_ms (sm_modules s ! i) = 0 \<or> last_refresh_ms (sm_modules s ! i) = 0 \<or>
            unat (refresh_ms (sm_modules s ! i)) \<le> unat (fst (sysmon_now_ms clk)) - unat (last_refresh_ms (sm_modules s ! i)))"
      using refresh_due_nat_all [of "sm_modules s ! i" "fst (sysmon_now_ms clk)"] by blast
    from rc due nat
    show "(\<forall>t rd rc. r_calls (sysmon_poll (Some s) True clk os h) ! i = Some (t, rd, rc) \<longrightarrow>
         t = fst (sysmon_now_ms clk) \<and> rd = refresh_due (sm_modules s ! i) (fst (sysmon_now_ms clk)) \<and> enabled (sm_modules s ! i)) \<and>
      (r_snapshot (sysmon_poll (Some s) True clk os h) \<noteq> None \<and> enabled (sm_modules s ! i) \<and>
       vtable (sm_modules s ! i) \<noteq> None \<and> vt_poll (the (vtable (sm_modules s ! i))) \<noteq> None \<longrightarrow>
         r_calls (sysmon_poll (Some s) True clk os h) ! i \<noteq> None) \<and>
      (refresh_due (sm_modules s ! i) (fst (sysmon_now_ms clk)) \<longleftrightarrow>
         refresh_ms (sm_modules s ! i) = 0 \<or> last_refresh_ms (sm_modules s ! i) = 0 \<or>
         ucast (refresh_ms (sm_modules s ! i)) \<le> fst (sysmon_now_ms clk) - last_refresh_ms (sm_modules s ! i)) \<and>
      (last_refresh_ms (sm_modules s ! i) \<le> fst (sysmon_now_ms clk) \<longrightarrow>
         (refresh_due (sm_modules s ! i) (fst (sysmon_now_ms clk)) \<longleftrightarrow>
            refresh_ms (sm_modules s ! i) = 0 \<or> last_refresh_ms (sm_modules s ! i) = 0 \<or>
            unat (refresh_ms (sm_modules s ! i)) \<le> unat (fst (sysmon_now_ms clk)) - unat (last_refresh_ms (sm_modules s ! i)))) \<and>
      (\<forall>s'. r_sysmon (sysmon_poll (Some s) True clk os h) = Some s' \<longrightarrow>
         length (sm_modules s') = length (sm_modules s) \<and>
         enabled (sm_modules s' ! i) = enabled (sm_modules s ! i) \<and>
         refresh_ms (sm_modules s' ! i) = refresh_ms (sm_modules s ! i) \<and>
         vtable (sm_modules s' ! i) = vtable (sm_modules s ! i) \<and>
         last_refresh_ms (sm_modules s' ! i) =
           (if r_calls (sysmon_poll (Some s) True clk os h) ! i = Some (fst (sysmon_now_ms clk), True, SYSMON_OK)
            then fst (sysmon_now_ms clk) else last_refresh_ms (sm_modules s ! i)))"
      by blast
  qed
  have cached: ?cached
    using round_cached [where s=s and clk=clk and os=os and h=h] by blast
  have vals: ?vals
    using round_values [where s=s and clk=clk and os=os and h=h] by blast
  show ?thesis by (rule conjI [OF clock conjI [OF len conjI [OF each conjI [OF cached vals]]]])
qed

lemma engine_cpu_interval_modules:
  "cr_sysmon (sysmon_create None True (ini_file ini_cpu_interval) os_sample []) \<noteq> None"
  "sm_modules engine_cpu_interval =
     [cpu_instance cpu_state_created 0, disabled_instance sysmon_ram_module,
      disabled_instance sysmon_battery_module, disabled_instance sysmon_network_module]"
  by (simp_all add: engine_cpu_interval_def create_eval ini_cpu_interval_def cpu_instance_def
      disabled_instance_def cpu_state_created_def)

lemma engine_cpu_interval_reachable: "engine_reachable engine_cpu_interval"
proof -
  from engine_cpu_interval_modules(1) obtain s where
    s: "cr_sysmon (sysmon_create None True (ini_file ini_cpu_interval) os_sample []) = Some s"
    by blast
  then have "engine_reachable s" by (rule engine_created)
  with s show ?thesis by (simp add: engine_cpu_interval_def)
qed

lemma disabled_round [simp]:
  "module_call (disabled_instance vt) t os = None"
  "module_after (disabled_instance vt) t os = disabled_instance vt"
  "module_metrics (disabled_instance vt) t os = []"
  by (simp_all add: module_call_def module_after_def module_metrics_def disabled_instance_def)

lemma cpu_first_round:
  "module_call (cpu_instance cpu_state_created 0) t os_sample = Some (t, True, SYSMON_OK)"
  "module_after (cpu_instance cpu_state_created 0) t os_sample = cpu_instance cpu_state_seeded t"
  "module_metrics (cpu_instance cpu_state_created 0) t os_sample = metrics_cpu 0"
  by (simp_all add: module_call_def module_after_def module_metrics_def run_eval
      cpu_instance_def cpu_state_created_def cpu_state_seeded_def metrics_cpu_def os_sample_def)

lemma cpu_cached_round:
  "module_call (cpu_instance cpu_state_seeded 10000) 11000 os_sample_later =
     Some (11000, False, SYSMON_OK)"
  "module_after (cpu_instance cpu_state_seeded 10000) 11000 os_sample_later =
     cpu_instance cpu_state_seeded 10000"
  "module_metrics (cpu_instance cpu_state_seeded 10000) 11000 os_sample_later = metrics_cpu 0"
  by (simp_all add: module_call_def module_after_def module_metrics_def run_eval
      cpu_instance_def cpu_state_seeded_def metrics_cpu_def os_sample_later_def os_sample_def)

lemma cpu_refreshed_round:
  "module_call (cpu_instance cpu_state_seeded 0) 1000 os_sample_later =
     Some (1000, True, SYSMON_OK)"
  "module_metrics (cpu_instance cpu_state_seeded 0) 1000 os_sample_later = metrics_cpu 50"
  by (simp_all add: module_call_def module_after_def module_metrics_def run_eval double_eval
      cpu_instance_def cpu_state_seeded_def metrics_cpu_def os_sample_later_def os_sample_def)

lemma engine_cpu_interval_instances:
  "list_all (\<lambda>m. enabled m \<longrightarrow>
      (\<exists>st. mod_state m = Some st \<and> vtable m = Some (module_of st)))
      (sm_modules engine_cpu_interval)"
  using engine_reachable_inv [OF engine_cpu_interval_reachable] by (rule engine_inv_instances)

lemma round_one_eval:
  "r_rc (round_one t0) = SYSMON_OK"
  "r_snapshot (round_one t0) = Some \<lparr>s_metrics = metrics_cpu 0\<rparr>"
  "r_calls (round_one t0) = [Some (t0 * 1000, True, SYSMON_OK), None, None, None]"
  "r_sysmon (round_one t0) =
     Some (engine_cpu_interval\<lparr>sm_modules :=
       [cpu_instance cpu_state_seeded (t0 * 1000), disabled_instance sysmon_ram_module,
        disabled_instance sysmon_battery_module, disabled_instance sysmon_network_module]\<rparr>)"
  "r_clock (round_one t0) = (clock_seconds t0)\<lparr>reads := 1\<rparr>"
  using sysmon_poll_no_failure [OF heap_ok_Nil engine_cpu_interval_instances,
      of "clock_seconds t0" os_sample]
  by (simp_all add: round_one_def engine_cpu_interval_modules cpu_first_round)

lemma round_one_reachable: "engine_reachable (the (r_sysmon (round_one t0)))"
proof -
  have "r_sysmon (sysmon_poll (Some engine_cpu_interval) True (clock_seconds t0) os_sample []) =
      Some (the (r_sysmon (round_one t0)))"
    using round_one_eval(4) [of t0] by (simp add: round_one_def)
  with engine_cpu_interval_reachable show ?thesis by (rule engine_polled)
qed

lemma second_now:
  "fst (sysmon_now_ms ((clock_seconds t0)\<lparr>reads := 1\<rparr>)) = t0 * 1000 + 1000"
  "reads (snd (sysmon_now_ms ((clock_seconds t0)\<lparr>reads := 1\<rparr>))) = 2"
  "fst (sysmon_now_ms ((clock_seconds t0)\<lparr>reads := Suc 0\<rparr>)) = t0 * 1000 + 1000"
  "reads (snd (sysmon_now_ms ((clock_seconds t0)\<lparr>reads := Suc 0\<rparr>))) = 2"
  by (simp_all add: sysmon_now_ms_def clock_seconds_def algebra_simps)

lemma round_two_poll:
  "round_two t0 =
     sysmon_poll (Some (the (r_sysmon (round_one t0)))) True ((clock_seconds t0)\<lparr>reads := 1\<rparr>)
       os_sample_later []"
  by (simp add: round_two_def round_one_eval)

lemma round_two_round:
  "r_rc (round_two t0) = SYSMON_OK \<and>
   r_snapshot (round_two t0) =
     Some \<lparr>s_metrics = concat (map (\<lambda>m. module_metrics m (t0 * 1000 + 1000) os_sample_later)
        (sm_modules (the (r_sysmon (round_one t0)))))\<rparr> \<and>
   r_calls (round_two t0) =
     map (\<lambda>m. module_call m (t0 * 1000 + 1000) os_sample_later)
       (sm_modules (the (r_sysmon (round_one t0)))) \<and>
   r_sysmon (round_two t0) =
     Some ((the (r_sysmon (round_one t0)))\<lparr>sm_modules :=
        map (\<lambda>m. module_after m (t0 * 1000 + 1000) os_sample_later)
          (sm_modules (the (r_sysmon (round_one t0))))\<rparr>) \<and>
   reads (r_clock (round_two t0)) = 2"
  using sysmon_poll_no_failure [OF heap_ok_Nil
      engine_inv_instances [OF engine_reachable_inv [OF round_one_reachable [of t0]]],
      of "(clock_seconds t0)\<lparr>reads := 1\<rparr>" os_sample_later]
  unfolding round_two_poll by (simp add: second_now)

lemma round_two_cached:
  "r_snapshot (round_two 10) = Some \<lparr>s_metrics = metrics_cpu 0\<rparr>"
  "r_calls (round_two 10) = [Some (11000, False, SYSMON_OK), None, None, None]"
  "r_sysmon (round_two 10) =
     Some (engine_cpu_interval\<lparr>sm_modules :=
       [cpu_instance cpu_state_seeded 10000, disabled_instance sysmon_ram_module,
        disabled_instance sysmon_battery_module, disabled_instance sysmon_network_module]\<rparr>)"
  using round_two_round [of 10]
  by (simp_all add: round_one_eval cpu_cached_round)

lemma round_two_refreshed:
  "r_snapshot (round_two 0) = Some \<lparr>s_metrics = metrics_cpu 50\<rparr>"
  "r_calls (round_two 0) = [Some (1000, True, SYSMON_OK), None, None, None]"
  using round_two_round [of 0]
  by (simp_all add: round_one_eval cpu_refreshed_round)

theorem poll_round_refresh_witness:
  "engine_reachable engine_cpu_interval \<and> heap_ok [] \<and>
   refresh_ms (sm_modules engine_cpu_interval ! 0) = 5000 \<and>
   os_cpu_ticks os_sample = Inr (2000, 1300) \<and> os_cpu_ticks os_sample_later = Inr (3000, 1800) \<and>
   r_calls (round_one 10) = [Some (10000, True, SYSMON_OK), None, None, None] \<and>
   reads (r_clock (round_one 10)) = 1 \<and>
   map last_refresh_ms (sm_modules (the (r_sysmon (round_one 10)))) = [10000, 0, 0, 0] \<and>
   r_snapshot (round_one 10) = Some \<lparr>s_metrics = metrics_cpu 0\<rparr> \<and>
   r_calls (round_two 10) = [Some (11000, False, SYSMON_OK), None, None, None] \<and>
   reads (r_clock (round_two 10)) = 2 \<and>
   map last_refresh_ms (sm_modules (the (r_sysmon (round_two 10)))) = [10000, 0, 0, 0] \<and>
   mod_state (sm_modules (the (r_sysmon (round_two 10))) ! 0) =
     mod_state (sm_modules (the (r_sysmon (round_one 10))) ! 0) \<and>
   r_snapshot (round_two 10) = Some \<lparr>s_metrics = metrics_cpu 0\<rparr>"
proof -
  note one = poll_round_refresh [where s=engine_cpu_interval and clk="clock_seconds 10"
      and os=os_sample and h="[]"]
  note two = poll_round_refresh [where s="the (r_sysmon (round_one 10))"
      and clk="(clock_seconds 10)\<lparr>reads := 1\<rparr>" and os=os_sample_later and h="[]"]
  have al: "fst (alloc [])" by (simp add: alloc_def)
  from one al have "reads (r_clock (sysmon_poll (Some engine_cpu_interval) True (clock_seconds 10)
      os_sample [])) = Suc (reads (clock_seconds 10))"
    by blast
  hence r1: "reads (r_clock (round_one 10)) = 1"
    by (simp add: round_one_def clock_seconds_def)
  from two al have "reads (r_clock (sysmon_poll (Some (the (r_sysmon (round_one 10)))) True
      ((clock_seconds 10)\<lparr>reads := 1\<rparr>) os_sample_later [])) =
      Suc (reads ((clock_seconds 10)\<lparr>reads := 1\<rparr>))"
    by blast
  hence r2: "reads (r_clock (round_two 10)) = 2"
    unfolding round_two_poll by simp
  have len: "0 < length (sm_modules (the (r_sysmon (round_one 10))))"
    by (simp add: round_one_eval)
  have c: "r_calls (round_two 10) ! 0 =
      Some (fst (sysmon_now_ms ((clock_seconds 10)\<lparr>reads := 1\<rparr>)), False, SYSMON_OK)"
    unfolding second_now by (simp add: round_two_cached)
  from two round_one_reachable [of 10] len c [unfolded round_two_poll]
  obtain st where st: "mod_state (sm_modules (the (r_sysmon (round_one 10))) ! 0) = Some st"
    "\<forall>s'. r_sysmon (round_two 10) = Some s' \<longrightarrow> mod_state (sm_modules s' ! 0) = Some st"
    unfolding round_two_poll by blast
  from round_two_cached(3) st have same: "mod_state (sm_modules (the (r_sysmon (round_two 10))) ! 0) =
     mod_state (sm_modules (the (r_sysmon (round_one 10))) ! 0)"
    by simp
  have ev: "refresh_ms (sm_modules engine_cpu_interval ! 0) = 5000"
    "os_cpu_ticks os_sample = Inr (2000, 1300)" "os_cpu_ticks os_sample_later = Inr (3000, 1800)"
    "map last_refresh_ms (sm_modules (the (r_sysmon (round_one 10)))) = [10000, 0, 0, 0]"
    "map last_refresh_ms (sm_modules (the (r_sysmon (round_two 10)))) = [10000, 0, 0, 0]"
    "r_calls (round_one 10) = [Some (10000, True, SYSMON_OK), None, None, None]"
    by (simp_all add: engine_cpu_interval_modules cpu_instance_def disabled_instance_def
        os_sample_def os_sample_later_def round_one_eval round_two_cached)
  from engine_cpu_interval_reachable r1 r2 same ev round_one_eval(2) [of 10] round_two_cached
  show ?thesis by simp
qed

text \<open>
  Claim C1 as stated fails: the cpu module has \<^verbatim>\<open>refresh_ms=5000\<close> and is refreshed by a
  first round at time 0.  The second round, 1000 ms later, has a prior refresh and lies
  within the interval, yet it refreshes the module again and reports another value: the
  usage is 0 in the first snapshot and 50 in the second.
\<close>

theorem refresh_at_time_zero_counterexample:
  "r_calls (round_one 0) ! 0 = Some (0, True, SYSMON_OK) \<and>
   refresh_ms (sm_modules (the (r_sysmon (round_one 0))) ! 0) = 5000 \<and>
   last_refresh_ms (sm_modules (the (r_sysmon (round_one 0))) ! 0) = 0 \<and>
   r_snapshot (round_one 0) = Some \<lparr>s_metrics = metrics_cpu 0\<rparr> \<and>
   r_calls (round_two 0) ! 0 = Some (1000, True, SYSMON_OK) \<and>
   unat (1000 :: 64 word) - unat (0 :: 64 word) < unat (5000 :: 32 word) \<and>
   r_snapshot (round_two 0) = Some \<lparr>s_metrics = metrics_cpu 50\<rparr> \<and>
   metrics_cpu 50 \<noteq> metrics_cpu 0"
  by (simp add: round_one_eval round_two_refreshed cpu_instance_def metrics_cpu_def)

end
